theory Spec2Isabelle
  imports Complex_Main
begin

section \<open>Strings as the source uses them\<close>

text \<open>
  Python strings are modelled as \<open>string\<close> (lists of 8-bit characters). The string
  methods used by \<^verbatim>\<open>Ribbindexer.py\<close> are written out for the ASCII range: \<open>lower\<close>
  maps \<open>A..Z\<close> to \<open>a..z\<close> and leaves every other character alone, \<open>strip\<close> removes
  the ASCII whitespace characters from both ends.
\<close>

definition py_lower_char :: "char \<Rightarrow> char" where
  "py_lower_char c =
     (let n = (of_char c :: nat) in if 65 \<le> n \<and> n \<le> 90 then char_of (n + 32) else c)"

definition py_lower :: "string \<Rightarrow> string" where
  "py_lower s = map py_lower_char s"

definition py_isspace :: "char \<Rightarrow> bool" where
  "py_isspace c =
     (let n = (of_char c :: nat) in (9 \<le> n \<and> n \<le> 13) \<or> (28 \<le> n \<and> n \<le> 32))"

definition py_strip :: "string \<Rightarrow> string" where
  "py_strip s = rev (dropWhile py_isspace (rev (dropWhile py_isspace s)))"

text \<open>\<^verbatim>\<open>str.split(',')\<close>: the pieces between commas; the empty string gives one empty piece.\<close>

fun py_split_comma :: "string \<Rightarrow> string list" where
  "py_split_comma [] = [[]]"
| "py_split_comma (c # cs) =
     (if c = CHR '','' then [] # py_split_comma cs
      else (case py_split_comma cs of
              [] \<Rightarrow> [[c]]
            | p # ps \<Rightarrow> (c # p) # ps))"

text \<open>\<^verbatim>\<open>str(n)\<close> of a non-negative integer: its decimal digits.\<close>

definition digit_char :: "nat \<Rightarrow> char" where
  "digit_char d = char_of (48 + d)"

fun str_nat :: "nat \<Rightarrow> string" where
  "str_nat n = (if n < 10 then [digit_char n] else str_nat (n div 10) @ [digit_char (n mod 10)])"

declare str_nat.simps [simp del]

text \<open>
  \<^verbatim>\<open>os.path.splitext\<close> (\<^verbatim>\<open>posixpath\<close>): the extension starts at the last dot of the
  last path component, unless only dots precede it in that component.
  \<open>rfind\<close> is \<^verbatim>\<open>str.rfind\<close> of one character, \<open>-1\<close> when it does not occur.
\<close>

definition rfind :: "char \<Rightarrow> string \<Rightarrow> int" where
  "rfind c p =
     (if c \<in> set p then int (length p) - 1 - int (length (takeWhile (\<lambda>x. x \<noteq> c) (rev p)))
      else - 1)"

definition splitext :: "string \<Rightarrow> string \<times> string" where
  "splitext p =
     (let sepIndex = rfind CHR ''/'' p;
          dotIndex = rfind CHR ''.'' p
      in if dotIndex > sepIndex
            \<and> list_ex (\<lambda>c. c \<noteq> CHR ''.'')
                 (take (nat (dotIndex - (sepIndex + 1))) (drop (nat (sepIndex + 1)) p))
         then (take (nat dotIndex) p, drop (nat dotIndex) p)
         else (p, []))"

section \<open>Search terms of a retrieval run\<close>

datatype search_type = Account | Name

text \<open>
  The first part of \<^verbatim>\<open>retrieve_documents\<close>. The CSV file is given as the rows that
  \<^verbatim>\<open>csv.reader\<close> yields; \<open>None\<close> stands for an empty path or a path that does not
  exist. \<^verbatim>\<open>next(reader, None)\<close> drops the first row when there is one; every
  remaining row that is not the empty list gives \<^verbatim>\<open>('account', row[0].strip())\<close>.
\<close>

fun csv_row_terms :: "string list \<Rightarrow> (search_type \<times> string) list" where
  "csv_row_terms [] = []"
| "csv_row_terms (cell # _) = [(Account, py_strip cell)]"

definition csv_terms :: "string list list \<Rightarrow> (search_type \<times> string) list" where
  "csv_terms rows = concat (map csv_row_terms (drop 1 rows))"

definition collect_search_terms ::
  "string list list option \<Rightarrow> string \<Rightarrow> string \<Rightarrow> string \<Rightarrow> (search_type \<times> string) list" where
  "collect_search_terms csv_file search_account search_firstname search_lastname =
     (let from_csv = (case csv_file of None \<Rightarrow> [] | Some rows \<Rightarrow> csv_terms rows);
          account = py_strip search_account;
          from_account = (if account \<noteq> [] then [(Account, account)] else []);
          firstname = py_strip search_firstname;
          lastname = py_strip search_lastname;
          from_name = (if firstname \<noteq> [] \<or> lastname \<noteq> []
                       then [(Name, py_strip (firstname @ '' '' @ lastname))] else [])
      in from_csv @ from_account @ from_name)"

section \<open>The date filter of a query\<close>

text \<open>
  \<^verbatim>\<open>indexed_at\<close> is a TEXT column and both bounds are bound as text, so SQLite compares
  them with the BINARY collation: byte by byte, a proper prefix being smaller.
\<close>

fun sql_text_le :: "string \<Rightarrow> string \<Rightarrow> bool" where
  "sql_text_le [] _ = True"
| "sql_text_le (_ # _) [] = False"
| "sql_text_le (a # as) (b # bs) =
     ((of_char a :: nat) < of_char b \<or> (a = b \<and> sql_text_le as bs))"

text \<open>
  \<^verbatim>\<open>AND indexed_at >= ? AND indexed_at <= ?\<close>, added to the query when either bound is
  given, with \<^verbatim>\<open>'1900-01-01'\<close> and \<^verbatim>\<open>'2100-12-31'\<close> for the bound left empty.
\<close>

definition date_filter :: "string \<Rightarrow> string \<Rightarrow> string \<Rightarrow> bool" where
  "date_filter date_from date_to indexed_at =
     (if date_from \<noteq> [] \<or> date_to \<noteq> []
      then sql_text_le (if date_from \<noteq> [] then date_from else ''1900-01-01'') indexed_at
           \<and> sql_text_le indexed_at (if date_to \<noteq> [] then date_to else ''2100-12-31'')
      else True)"

section \<open>Text extraction\<close>

text \<open>
  A path is the list of its components: \<^verbatim>\<open>os.path.join(root, name)\<close> appends one
  component and \<^verbatim>\<open>os.path.basename\<close> is the last one.
\<close>

type_synonym path = "string list"

definition basename :: "path \<Rightarrow> string" where
  "basename p = (if p = [] then [] else last p)"

text \<open>\<^verbatim>\<open>os.path.splitext(p)[1].lower()\<close>: only the last component matters.\<close>

definition extension_of :: "path \<Rightarrow> string" where
  "extension_of p = py_lower (snd (splitext (basename p)))"

text \<open>
  What the code can catch: \<^verbatim>\<open>ImportError\<close> and every other \<^verbatim>\<open>Exception\<close>, each with
  the text that \<^verbatim>\<open>str(e)\<close> gives.
\<close>

datatype exn = ImportError string | OtherException string

fun str_exn :: "exn \<Rightarrow> string" where
  "str_exn (ImportError m) = m"
| "str_exn (OtherException m) = m"

text \<open>
  The value of a spreadsheet cell as the two libraries hand it over: \<^verbatim>\<open>None\<close>, a
  string, an integer, a float or a boolean. \<open>truthy\<close> is Python's truth value,
  \<open>py_str\<close> is \<^verbatim>\<open>str(cell)\<close>; the text of a float is left to the parameter
  \<open>float_str\<close>.
\<close>

datatype cell = CNone | CStr string | CInt int | CFloat rat | CBool bool

fun truthy :: "cell \<Rightarrow> bool" where
  "truthy CNone = False"
| "truthy (CStr s) = (s \<noteq> [])"
| "truthy (CInt i) = (i \<noteq> 0)"
| "truthy (CFloat x) = (x \<noteq> 0)"
| "truthy (CBool b) = b"

definition str_int :: "int \<Rightarrow> string" where
  "str_int i = (if i < 0 then CHR ''-'' # str_nat (nat (- i)) else str_nat (nat i))"

fun py_str :: "(rat \<Rightarrow> string) \<Rightarrow> cell \<Rightarrow> string" where
  "py_str float_str CNone = ''None''"
| "py_str float_str (CStr s) = s"
| "py_str float_str (CInt i) = str_int i"
| "py_str float_str (CFloat x) = float_str x"
| "py_str float_str (CBool b) = (if b then ''True'' else ''False'')"

text \<open>\<^verbatim>\<open>sep.join(xs)\<close>.\<close>

fun py_join :: "string \<Rightarrow> string list \<Rightarrow> string" where
  "py_join sep [] = []"
| "py_join sep [x] = x"
| "py_join sep (x # y # ys) = x @ sep @ py_join sep (y # ys)"

text \<open>
  What the file system and the format libraries give for a path. Each reader stands
  for the whole body of one \<^verbatim>\<open>try\<close> block of \<^verbatim>\<open>extract_text_from_file\<close>: it
  either raises (a missing library raises \<open>ImportError\<close>) or delivers the pages,
  paragraphs or sheets (a sheet is a list of rows, a row a list of cells).
\<close>

record extract_env =
  read_text :: "path \<Rightarrow> exn + string"
  pdf_pages :: "path \<Rightarrow> exn + string list"
  docx_paragraphs :: "path \<Rightarrow> exn + string list"
  xlsx_sheets :: "path \<Rightarrow> exn + cell list list list"
  xls_sheets :: "path \<Rightarrow> exn + cell list list list"
  float_str :: "rat \<Rightarrow> string"

text \<open>The row rule of the \<^verbatim>\<open>.xlsx\<close> branch: cells that are not \<^verbatim>\<open>None\<close>.\<close>

definition xlsx_row_text :: "(rat \<Rightarrow> string) \<Rightarrow> cell list \<Rightarrow> string" where
  "xlsx_row_text fs row = py_join '' '' (map (py_str fs) (filter (\<lambda>cell. cell \<noteq> CNone) row))"

text \<open>The row rule of the \<^verbatim>\<open>.xls\<close> branch: cells that are truthy.\<close>

definition xls_row_text :: "(rat \<Rightarrow> string) \<Rightarrow> cell list \<Rightarrow> string" where
  "xls_row_text fs row = py_join '' '' (map (py_str fs) (filter truthy row))"

text \<open>Both branches keep a row when \<^verbatim>\<open>row_text.strip()\<close> is not empty.\<close>

definition sheets_text :: "(cell list \<Rightarrow> string) \<Rightarrow> cell list list list \<Rightarrow> string" where
  "sheets_text row_text sheets =
     py_join [CHR 0x0A]
       (filter (\<lambda>t. py_strip t \<noteq> []) (map row_text (concat sheets)))"

text \<open>
  The inner \<^verbatim>\<open>try\<close> of a format branch: \<^verbatim>\<open>except ImportError\<close> first, then
  \<^verbatim>\<open>except Exception\<close>; both return a bracketed string.
\<close>

fun format_try :: "string \<Rightarrow> string \<Rightarrow> exn + string \<Rightarrow> exn + string" where
  "format_try fmt install (Inr text) = Inr text"
| "format_try fmt install (Inl (ImportError m)) =
     Inr (''['' @ fmt @ '' - Install '' @ install @ '']'')"
| "format_try fmt install (Inl (OtherException m)) =
     Inr (''['' @ fmt @ '' extraction error: '' @ m @ '']'')"

text \<open>The result of a reader, mapped when it did not raise.\<close>

definition on_success :: "('a \<Rightarrow> 'b) \<Rightarrow> exn + 'a \<Rightarrow> exn + 'b" where
  "on_success f r = (case r of Inl e \<Rightarrow> Inl e | Inr x \<Rightarrow> Inr (f x))"

text \<open>The body of the outer \<^verbatim>\<open>try\<close>: dispatch on the lower-cased extension.\<close>

definition extract_body :: "extract_env \<Rightarrow> path \<Rightarrow> exn + string" where
  "extract_body env filepath =
     (let ext = extension_of filepath
      in if ext = ''.txt'' then read_text env filepath
         else if ext = ''.csv'' then read_text env filepath
         else if ext = ''.pdf'' then
           format_try ''PDF'' ''PyPDF2: pip install PyPDF2''
             (on_success (py_join [CHR 0x0A]) (pdf_pages env filepath))
         else if ext = ''.docx'' then
           format_try ''DOCX'' ''python-docx: pip install python-docx''
             (on_success (py_join [CHR 0x0A]) (docx_paragraphs env filepath))
         else if ext = ''.xlsx'' then
           format_try ''XLSX'' ''openpyxl: pip install openpyxl''
             (on_success (sheets_text (xlsx_row_text (float_str env))) (xlsx_sheets env filepath))
         else if ext = ''.xls'' then
           format_try ''XLS'' ''xlrd: pip install xlrd''
             (on_success (sheets_text (xls_row_text (float_str env))) (xls_sheets env filepath))
         else Inr [])"

text \<open>The outer \<^verbatim>\<open>except Exception\<close> turns whatever is left into a bracketed string.\<close>

definition extract_text_from_file :: "extract_env \<Rightarrow> path \<Rightarrow> exn + string" where
  "extract_text_from_file env filepath =
     (case extract_body env filepath of
        Inr text \<Rightarrow> Inr text
      | Inl e \<Rightarrow> Inr (''[Error extracting text: '' @ str_exn e @ '']''))"

definition bracketed :: "string \<Rightarrow> bool" where
  "bracketed s = (s \<noteq> [] \<and> hd s = CHR ''['' \<and> last s = CHR '']'')"

section \<open>The catalog\<close>

text \<open>
  One row of the table \<^verbatim>\<open>files\<close>; the fields carry the column names. \<open>row_id\<close> is
  the column \<^verbatim>\<open>id\<close>. The table has no uniqueness constraint on \<^verbatim>\<open>filepath\<close>.
\<close>

record file_record =
  row_id :: nat
  filename :: string
  filepath :: path
  file_extension :: string
  file_size :: nat
  content_text :: string
  indexed_at :: string

text \<open>
  The database: the rows in insertion order and the counter that \<^verbatim>\<open>AUTOINCREMENT\<close>
  keeps (it survives \<^verbatim>\<open>DELETE FROM files\<close>).
\<close>

record database =
  files :: "file_record list"
  autoincrement :: nat

definition delete_from_files :: "database \<Rightarrow> database" where
  "delete_from_files d = d\<lparr>files := []\<rparr>"

definition insert_into_files ::
  "database \<Rightarrow> string \<Rightarrow> path \<Rightarrow> string \<Rightarrow> nat \<Rightarrow> string \<Rightarrow> string \<Rightarrow> database" where
  "insert_into_files d name p extension sz content stamp =
     d\<lparr>files := files d @
           [\<lparr>row_id = autoincrement d + 1, filename = name, filepath = p,
             file_extension = extension, file_size = sz, content_text = content,
             indexed_at = stamp\<rparr>],
       autoincrement := autoincrement d + 1\<rparr>"

section \<open>Indexing\<close>

text \<open>
  A directory as \<^verbatim>\<open>os.walk\<close> sees it: the names of its files and its subdirectories,
  each with its own content.
\<close>

datatype dir_tree = Dir (dir_files: "string list") (dir_subdirs: "(string \<times> dir_tree) list")

text \<open>
  \<^verbatim>\<open>os.walk(directory)\<close>, top down. It yields \<^verbatim>\<open>(root, dirs, files)\<close> for a
  directory and then walks the subdirectories still in \<^verbatim>\<open>dirs\<close> when the loop body
  has run. The body of \<^verbatim>\<open>index_directory\<close> replaces \<^verbatim>\<open>dirs[:]\<close> by the names that
  satisfy a test, the parameter \<open>keep\<close> here.
\<close>

fun os_walk ::
  "(string \<Rightarrow> bool) \<Rightarrow> path \<Rightarrow> dir_tree \<Rightarrow> (path \<times> string list \<times> string list) list" where
  "os_walk keep dirpath (Dir names subdirs) =
     (dirpath, map fst subdirs, names)
     # concat (map (\<lambda>sub. os_walk keep (dirpath @ [fst sub]) (snd sub))
                   (filter (\<lambda>sub. keep (fst sub)) subdirs))"

text \<open>
  \<^verbatim>\<open>[f.strip().lower() for f in self.exclude_folders.get().split(',') if f.strip()]\<close>
\<close>

definition exclude_folders_of :: "string \<Rightarrow> string list" where
  "exclude_folders_of setting =
     map (\<lambda>f. py_lower (py_strip f)) (filter (\<lambda>f. py_strip f \<noteq> []) (py_split_comma setting))"

text \<open>The files of one directory that the scan keeps, in the order of \<^verbatim>\<open>files\<close>.\<close>

definition scan_files :: "string list \<Rightarrow> bool \<Rightarrow> path set \<Rightarrow> path \<Rightarrow> string list \<Rightarrow> path list" where
  "scan_files extensions incremental existing_files dirpath names =
     concat (map (\<lambda>name.
        if py_lower (snd (splitext name)) \<in> set extensions
        then (if incremental
              then (if dirpath @ [name] \<notin> existing_files then [dirpath @ [name]] else [])
              else [dirpath @ [name]])
        else []) names)"

text \<open>The scan of the whole tree: \<^verbatim>\<open>all_files\<close>.\<close>

definition collect_all_files ::
  "string list \<Rightarrow> string list \<Rightarrow> bool \<Rightarrow> path set \<Rightarrow> path \<Rightarrow> dir_tree \<Rightarrow> path list" where
  "collect_all_files exclude_folders extensions incremental existing_files directory tree =
     concat (map (\<lambda>visit. scan_files extensions incremental existing_files (fst visit) (snd (snd visit)))
                 (os_walk (\<lambda>d. py_lower d \<notin> set exclude_folders) directory tree))"

text \<open>
  What indexing needs from outside: the format readers, \<^verbatim>\<open>os.path.getsize\<close> (it
  raises for a file that has gone or cannot be read) and the clock; \<open>now k\<close> is
  \<^verbatim>\<open>datetime.now().isoformat()\<close> at the insertion that follows \<open>k\<close> earlier ones of
  the run.
\<close>

record index_env =
  formats :: extract_env
  getsize :: "path \<Rightarrow> exn + nat"
  now :: "nat \<Rightarrow> string"

record index_state =
  db :: database
  indexed_count :: nat
  progress :: "(nat \<times> nat) list"

text \<open>
  The body of the loop over a chunk, with its \<^verbatim>\<open>try\<close>: an exception leaves database
  and counter as they are.
\<close>

definition index_file :: "index_env \<Rightarrow> bool \<Rightarrow> index_state \<Rightarrow> path \<Rightarrow> index_state" where
  "index_file env index_content st p =
     (let name = basename p;
          extension = py_lower (snd (splitext name))
      in case getsize env p of
           Inl e \<Rightarrow> st
         | Inr sz \<Rightarrow>
             (case (if index_content then extract_text_from_file (formats env) p else Inr []) of
                Inl e \<Rightarrow> st
              | Inr content \<Rightarrow>
                  st\<lparr>db := insert_into_files (db st) name p extension sz content
                               (now env (indexed_count st)),
                     indexed_count := indexed_count st + 1\<rparr>))"

text \<open>\<^verbatim>\<open>[xs[i:i + n] for i in range(0, len(xs), n)]\<close>\<close>

function chunks_of :: "nat \<Rightarrow> 'a list \<Rightarrow> 'a list list" where
  "chunks_of n xs = (if xs = [] \<or> n = 0 then [] else take n xs # chunks_of n (drop n xs))"
  by pat_completeness auto
termination
  by (relation "measure (\<lambda>(n, xs). length xs)") auto

declare chunks_of.simps [simp del]

text \<open>One chunk: its files, the commit, the progress report.\<close>

definition index_chunk :: "index_env \<Rightarrow> bool \<Rightarrow> nat \<Rightarrow> index_state \<Rightarrow> path list \<Rightarrow> index_state" where
  "index_chunk env index_content total_files st chunk =
     (let st' = foldl (index_file env index_content) st chunk
      in st'\<lparr>progress := progress st' @ [(indexed_count st', total_files)]\<rparr>)"

datatype index_outcome = NoFilesFound | Complete nat

text \<open>
  \<^verbatim>\<open>index_directory\<close>. \<open>setting\<close> is the text of the exclude-folders field, \<open>tree\<close>
  the content of \<open>directory\<close>. The result is the final status and the database.
\<close>

definition index_directory ::
  "index_env \<Rightarrow> string \<Rightarrow> dir_tree \<Rightarrow> database \<Rightarrow> path \<Rightarrow> string list \<Rightarrow> bool \<Rightarrow> bool
   \<Rightarrow> index_outcome \<times> database" where
  "index_directory env setting tree db0 directory extensions index_content incremental =
     (let exclude_folders = exclude_folders_of setting;
          db1 = (if \<not> incremental then delete_from_files db0 else db0);
          existing_files = (if \<not> incremental then {} else set (map filepath (files db0)));
          all_files = collect_all_files exclude_folders extensions incremental existing_files
                        directory tree;
          total_files = length all_files
      in if total_files = 0 then (NoFilesFound, db1)
         else (let st = foldl (index_chunk env index_content total_files)
                          \<lparr>db = db1, indexed_count = 0, progress = []\<rparr>
                          (chunks_of 50 all_files)
               in (Complete (indexed_count st), db st)))"

section \<open>Retrieval\<close>

text \<open>
  SQLite's \<^verbatim>\<open>LIKE\<close>: \<open>%\<close> stands for any run of characters, \<open>_\<close> for any one
  character, ASCII letters match without regard to case.
\<close>

fun sql_like :: "string \<Rightarrow> string \<Rightarrow> bool" where
  "sql_like [] s = (s = [])"
| "sql_like (p # ps) [] = (p = CHR ''%'' \<and> sql_like ps [])"
| "sql_like (p # ps) (c # cs) =
     (if p = CHR ''%'' then sql_like ps (c # cs) \<or> sql_like (p # ps) cs
      else (p = CHR ''_'' \<or> py_lower_char p = py_lower_char c) \<and> sql_like ps cs)"

text \<open>
  The query of one search term, with the date filter, then the filter by file type.
  Rows come in insertion order.
\<close>

definition matches_term :: "search_type \<Rightarrow> string \<Rightarrow> file_record \<Rightarrow> bool" where
  "matches_term stype trm r =
     (case stype of
        Account \<Rightarrow> sql_like (''%'' @ trm @ ''%'') (filename r)
                   \<or> sql_like (''%'' @ trm @ ''%'') (content_text r)
      | Name \<Rightarrow> sql_like (''%'' @ trm @ ''%'') (content_text r))"

definition query_results :: "database \<Rightarrow> search_type \<Rightarrow> string \<Rightarrow> string \<Rightarrow> string \<Rightarrow> file_record list" where
  "query_results d stype trm lo hi =
     filter (\<lambda>r. matches_term stype trm r \<and> date_filter lo hi (indexed_at r)) (files d)"

text \<open>
  The name-conflict loop:
  \<^verbatim>\<open>while os.path.exists(dest): dest = join(output_path, f"{base}_{counter}{ext}"); counter += 1\<close>.
  The output directory is the list of the names in it, so the loop ends.
\<close>

function name_conflict_loop :: "string list \<Rightarrow> string \<Rightarrow> string \<Rightarrow> string \<Rightarrow> nat \<Rightarrow> string" where
  "name_conflict_loop existing base ext dest counter =
     (if dest \<in> set existing
      then name_conflict_loop existing base ext (base @ ''_'' @ str_nat counter @ ext) (counter + 1)
      else dest)"
  by pat_completeness auto
termination
proof -
  let ?dec = "foldl (\<lambda>a c. 10 * a + (of_char c - 48)) (0::nat)"
  have dec: "?dec (str_nat n) = n" for n
  proof (induction n rule: str_nat.induct)
    case (1 n)
    show ?case
    proof (cases "n < 10")
      case True
      then show ?thesis
        by (subst str_nat.simps) (simp add: digit_char_def)
    next
      case False
      have "n mod 10 < 10" by simp
      then have d: "(of_char (digit_char (n mod 10)) :: nat) = 48 + n mod 10"
        by (simp add: digit_char_def)
      from False 1 have "?dec (str_nat (n div 10)) = n div 10" by simp
      with False d show ?thesis
        by (subst str_nat.simps) simp
    qed
  qed
  have inj: "a = b" if "str_nat a = str_nat b" for a b
  proof -
    have "a = ?dec (str_nat a)" by (simp only: dec)
    also have "\<dots> = ?dec (str_nat b)" by (simp only: that)
    also have "\<dots> = b" by (simp only: dec)
    finally show ?thesis .
  qed
  let ?taken = "\<lambda>existing base ext counter.
      {n \<in> set existing. \<exists>k\<ge>counter. n = base @ ''_'' @ str_nat k @ ext}"
  let ?m = "\<lambda>(existing, base, ext, dest, counter).
      if dest \<in> set existing then Suc (card (?taken existing base ext counter)) else 0"
  show ?thesis
  proof (relation "measure ?m")
    show "wf (measure ?m)" by simp
  next
    fix existing :: "string list" and base ext dest :: string and counter :: nat
    assume "dest \<in> set existing"
    let ?new = "base @ ''_'' @ str_nat counter @ ext"
    have "card (?taken existing base ext (counter + 1)) < card (?taken existing base ext counter)"
      if "?new \<in> set existing"
    proof (rule psubset_card_mono)
      show "finite (?taken existing base ext counter)" by simp
      have "?new \<in> ?taken existing base ext counter"
        using that by auto
      moreover have "?new \<notin> ?taken existing base ext (counter + 1)"
      proof
        assume "?new \<in> ?taken existing base ext (counter + 1)"
        then obtain k where k: "k \<ge> counter + 1" "?new = base @ ''_'' @ str_nat k @ ext"
          by blast
        from k(2) have "str_nat counter = str_nat k" by simp
        then have "counter = k" by (rule inj)
        with k(1) show False by simp
      qed
      moreover have "?taken existing base ext (counter + 1) \<subseteq> ?taken existing base ext counter"
      proof
        fix n
        assume "n \<in> ?taken existing base ext (counter + 1)"
        then obtain k where "n \<in> set existing" "k \<ge> counter + 1" "n = base @ ''_'' @ str_nat k @ ext"
          by blast
        then have "n \<in> set existing" "k \<ge> counter" "n = base @ ''_'' @ str_nat k @ ext"
          by simp_all
        then show "n \<in> ?taken existing base ext counter"
          by blast
      qed
      ultimately show "?taken existing base ext (counter + 1) \<subset> ?taken existing base ext counter"
        by blast
    qed
    with \<open>dest \<in> set existing\<close>
    show "((existing, base, ext, ?new, counter + 1), (existing, base, ext, dest, counter)) \<in> measure ?m"
      by simp
  qed
qed

declare name_conflict_loop.simps [simp del]

definition resolve_destination :: "string list \<Rightarrow> string \<Rightarrow> string" where
  "resolve_destination existing name =
     (if name \<in> set existing
      then (let (base, ext) = splitext name in name_conflict_loop existing base ext name 1)
      else name)"

text \<open>
  A destination is written relative to the output directory of the run:
  \<^verbatim>\<open>os.path.join(output_path, name)\<close> is the string \<open>name\<close>. The run creates no
  directory below its own, so a name with a separator in it (a search term with a
  slash, put in front of the file name) points into a directory that is not there.
  \<^verbatim>\<open>os.path.basename\<close> of a destination is what follows its last separator. Two
  names are the same file when they are the same string.
\<close>

definition basename_of_name :: "string \<Rightarrow> string" where
  "basename_of_name name = drop (nat (rfind CHR ''/'' name + 1)) name"

text \<open>
  What retrieval needs from outside:
  \<^item> \<open>read_bytes\<close>: \<^verbatim>\<open>open(path, 'rb').read()\<close> for the hash, which may raise;
  \<^item> \<open>md5_hexdigest\<close>: \<^verbatim>\<open>hashlib.md5(bytes).hexdigest()\<close>;
  \<^item> \<open>copy2\<close>: \<^verbatim>\<open>shutil.copy2(source, destination)\<close>, which raises (the source cannot
    be read, the directory of the destination does not exist, the disk is full) or
    writes the bytes it gives to the destination;
  \<^item> \<open>save_workbook\<close>: what importing \<^verbatim>\<open>openpyxl\<close> and saving the workbook raises,
    if it raises.
\<close>

record retrieval_env =
  read_bytes :: "path \<Rightarrow> exn + string"
  md5_hexdigest :: "string \<Rightarrow> string"
  copy2 :: "path \<Rightarrow> string \<Rightarrow> exn + string"
  save_workbook :: "exn option"

text \<open>The settings of one run, as read from the form (dates already stripped).\<close>

record retrieval_filter =
  date_from :: string
  date_to :: string
  allowed_extensions :: "string list"
  bulk_rename_prefix :: bool
  export_to_excel :: bool

text \<open>The lines of the manifest, by kind.\<close>

datatype manifest_line =
    TitleLine
  | GeneratedLine
  | TotalTermsLine nat
  | RuleLine
  | BlankLine
  | SearchTermLine string search_type
  | NotFoundLine
  | FoundLine string bool
  | SourceLine path
  | SizeLine nat
  | ErrorLine string
  | SummaryLine nat nat
  | DuplicatesLine nat

record duplicate_entry =
  original :: string
  duplicate :: string
  duplicate_term :: string

record found_file =
  search_term :: string
  search_kind :: search_type
  source_row :: file_record
  output_filename :: string
  is_duplicate :: bool

text \<open>
  The variables of the loop over the search terms, and \<open>output_files\<close>: the files
  that \<^verbatim>\<open>os.path.exists\<close> finds from the output directory, destination and bytes, in
  the order they were written.
\<close>

record retrieval_state =
  manifest_data :: "manifest_line list"
  results_summary :: "(string \<times> nat) list"
  missing_files :: "(string \<times> search_type) list"
  duplicates_detected :: "duplicate_entry list"
  total_found :: nat
  processed :: nat
  file_hashes :: "string \<rightharpoonup> string"
  found_files_data :: "found_file list"
  output_files :: "(string \<times> string) list"

text \<open>
  The duplicate check of one file. \<open>file_hash\<close> is \<open>None\<close> when the file could not be
  read; \<^verbatim>\<open>if file_hash and file_hash in file_hashes\<close> needs a hash that is not the
  empty string.
\<close>

definition check_duplicate ::
  "string option \<Rightarrow> string \<Rightarrow> string \<Rightarrow> retrieval_state \<Rightarrow> bool \<times> retrieval_state" where
  "check_duplicate file_hash name trm st =
     (case file_hash of
        None \<Rightarrow> (False, st)
      | Some h \<Rightarrow>
          if h = [] then (False, st)
          else (case file_hashes st h of
                  Some first_name \<Rightarrow>
                    (True, st\<lparr>duplicates_detected := duplicates_detected st @
                                 [\<lparr>original = first_name, duplicate = name, duplicate_term = trm\<rparr>]\<rparr>)
                | None \<Rightarrow> (False, st\<lparr>file_hashes := (file_hashes st)(h \<mapsto> name)\<rparr>)))"

text \<open>The name of the copy: with \<^verbatim>\<open>bulk_rename_prefix\<close> it is \<^verbatim>\<open>f"{term}_{base}{ext}"\<close>.\<close>

definition prepare_filename :: "bool \<Rightarrow> string \<Rightarrow> string \<Rightarrow> string" where
  "prepare_filename prefix trm name =
     (if prefix then (let (base, ext) = splitext name in trm @ ''_'' @ base @ ext) else name)"

text \<open>
  The body of the loop over the rows of one term, with its \<^verbatim>\<open>try\<close>. The hash is
  recorded before the copy is tried; when the copy raises, the handler writes the error
  line and the row gets no entry in \<^verbatim>\<open>found_files_data\<close>.
\<close>

definition process_file ::
  "retrieval_env \<Rightarrow> bool \<Rightarrow> search_type \<Rightarrow> string \<Rightarrow> retrieval_state \<Rightarrow> file_record \<Rightarrow> retrieval_state" where
  "process_file env prefix stype trm st file =
     (let file_hash = (case read_bytes env (filepath file) of
                         Inl e \<Rightarrow> None
                       | Inr bytes \<Rightarrow> Some (md5_hexdigest env bytes));
          (is_dup, st1) = check_duplicate file_hash (filename file) trm st;
          name = prepare_filename prefix trm (filename file);
          dest = resolve_destination (map fst (output_files st1)) name
      in case copy2 env (filepath file) dest of
           Inl e \<Rightarrow> st1\<lparr>manifest_data := manifest_data st1 @ [ErrorLine (str_exn e)]\<rparr>
         | Inr bytes \<Rightarrow>
             st1\<lparr>output_files := output_files st1 @ [(dest, bytes)],
                 manifest_data := manifest_data st1 @
                   [FoundLine name is_dup, SourceLine (filepath file), SizeLine (file_size file)],
                 found_files_data := found_files_data st1 @
                   [\<lparr>search_term = trm, search_kind = stype, source_row = file,
                     output_filename = basename_of_name dest, is_duplicate = is_dup\<rparr>]\<rparr>)"

text \<open>The rows of one term after both filters.\<close>

definition filtered_results :: "database \<Rightarrow> retrieval_filter \<Rightarrow> search_type \<times> string \<Rightarrow> file_record list" where
  "filtered_results d flt st_term =
     filter (\<lambda>r. file_extension r \<in> set (allowed_extensions flt))
       (query_results d (fst st_term) (snd st_term) (date_from flt) (date_to flt))"

text \<open>The body of the loop over the search terms.\<close>

definition process_term ::
  "retrieval_env \<Rightarrow> database \<Rightarrow> retrieval_filter \<Rightarrow> retrieval_state \<Rightarrow> search_type \<times> string
   \<Rightarrow> retrieval_state" where
  "process_term env d flt st st_term =
     (let stype = fst st_term;
          trm = snd st_term;
          rows = filtered_results d flt st_term;
          st1 = st\<lparr>manifest_data := manifest_data st @ [SearchTermLine trm stype],
                   results_summary := results_summary st @ [(trm, length rows)]\<rparr>;
          st2 = (if rows = []
                 then st1\<lparr>manifest_data := manifest_data st1 @ [NotFoundLine],
                          missing_files := missing_files st1 @ [(trm, stype)]\<rparr>
                 else foldl (process_file env (bulk_rename_prefix flt) stype trm)
                        (st1\<lparr>total_found := total_found st1 + length rows\<rparr>) rows)
      in st2\<lparr>manifest_data := manifest_data st2 @ [BlankLine],
             processed := processed st2 + 1\<rparr>)"

definition initial_state :: "nat \<Rightarrow> (string \<times> string) list \<Rightarrow> retrieval_state" where
  "initial_state n_terms output0 =
     \<lparr>manifest_data = [TitleLine, GeneratedLine, TotalTermsLine n_terms, RuleLine, BlankLine],
      results_summary = [], missing_files = [], duplicates_detected = [], total_found = 0,
      processed = 0, file_hashes = Map.empty, found_files_data = [], output_files = output0\<rparr>"

text \<open>
  What a file of the output directory holds when the run is over: the bytes of a copy
  or one of the reports. A report is written with \<^verbatim>\<open>open(path, 'w')\<close> under its fixed
  name, without the name-conflict loop: it replaces a copy of that name.
\<close>

datatype bundle_content =
    CopiedBytes string
  | ManifestText "manifest_line list"
  | ManifestWorkbook "manifest_line list"
  | MissingCsv "(string \<times> search_type) list"
  | FoundCsv "found_file list"
  | DuplicatesCsv "duplicate_entry list"

definition write_file ::
  "string \<Rightarrow> bundle_content \<Rightarrow> (string \<times> bundle_content) list \<Rightarrow> (string \<times> bundle_content) list" where
  "write_file name content dir =
     (if name \<in> set (map fst dir)
      then map (\<lambda>entry. if fst entry = name then (name, content) else entry) dir
      else dir @ [(name, content)])"

text \<open>
  What a run leaves behind: \<open>copied_files\<close>, the files of the output directory when the
  loop over the terms ends; the text of \<^verbatim>\<open>MANIFEST.txt\<close>; the three CSV exports, each
  written only when its list is not empty; the totals shown at the end; and \<open>output_bundle\<close>,
  the output directory after the reports have been written.
\<close>

record retrieval_report =
  copied_files :: "(string \<times> string) list"
  manifest_txt :: "manifest_line list"
  missing_media_csv :: "(string \<times> search_type) list option"
  found_files_csv :: "found_file list option"
  duplicates_detected_csv :: "duplicate_entry list option"
  report_total_found :: nat
  report_missing :: nat
  report_duplicates :: nat
  output_bundle :: "(string \<times> bundle_content) list"

definition when_nonempty :: "'a list \<Rightarrow> 'a list option" where
  "when_nonempty xs = (if xs = [] then None else Some xs)"

text \<open>The manifest with its closing lines.\<close>

definition final_manifest :: "nat \<Rightarrow> retrieval_state \<Rightarrow> manifest_line list" where
  "final_manifest n_terms st =
     manifest_data st @ [SummaryLine (total_found st) n_terms]
       @ (if duplicates_detected st \<noteq> [] then [DuplicatesLine (length (duplicates_detected st))]
          else [])"

text \<open>
  The reports of a run, in the order the code writes them: the manifest always, the
  workbook when the option is set and nothing raises, each CSV file when its list is
  not empty.
\<close>

definition report_files ::
  "retrieval_env \<Rightarrow> retrieval_filter \<Rightarrow> nat \<Rightarrow> retrieval_state \<Rightarrow> (string \<times> bundle_content) list" where
  "report_files env flt n_terms st =
     [(''MANIFEST.txt'', ManifestText (final_manifest n_terms st))]
     @ (if export_to_excel flt \<and> save_workbook env = None
        then [(''MANIFEST.xlsx'', ManifestWorkbook (final_manifest n_terms st))] else [])
     @ (if missing_files st \<noteq> [] then [(''missing_media.csv'', MissingCsv (missing_files st))] else [])
     @ (if found_files_data st \<noteq> [] then [(''found_files.csv'', FoundCsv (found_files_data st))] else [])
     @ (if duplicates_detected st \<noteq> []
        then [(''duplicates_detected.csv'', DuplicatesCsv (duplicates_detected st))] else [])"

text \<open>The names under which reports are written.\<close>

definition report_names :: "string list" where
  "report_names =
     [''MANIFEST.txt'', ''MANIFEST.xlsx'', ''missing_media.csv'', ''found_files.csv'',
      ''duplicates_detected.csv'']"

definition finish_report ::
  "retrieval_env \<Rightarrow> retrieval_filter \<Rightarrow> nat \<Rightarrow> retrieval_state \<Rightarrow> retrieval_report" where
  "finish_report env flt n_terms st =
     \<lparr>copied_files = output_files st,
      manifest_txt = final_manifest n_terms st,
      missing_media_csv = when_nonempty (missing_files st),
      found_files_csv = when_nonempty (found_files_data st),
      duplicates_detected_csv = when_nonempty (duplicates_detected st),
      report_total_found = total_found st,
      report_missing = length (missing_files st),
      report_duplicates = length (duplicates_detected st),
      output_bundle = foldl (\<lambda>dir report. write_file (fst report) (snd report) dir)
                 (map (\<lambda>copy. (fst copy, CopiedBytes (snd copy))) (output_files st))
                 (report_files env flt n_terms st)\<rparr>"

text \<open>
  \<^verbatim>\<open>retrieve_documents\<close> from the list of search terms on; \<open>output0\<close> is what the
  output directory holds when the run starts. Without search terms the run stops
  before anything is written. Writing a report is taken not to raise; the updates of
  the window are left out.
\<close>

definition run_terms ::
  "retrieval_env \<Rightarrow> database \<Rightarrow> retrieval_filter \<Rightarrow> (string \<times> string) list
   \<Rightarrow> (search_type \<times> string) list \<Rightarrow> retrieval_state" where
  "run_terms env d flt output0 search_terms =
     foldl (process_term env d flt) (initial_state (length search_terms) output0) search_terms"

definition retrieve_documents ::
  "retrieval_env \<Rightarrow> database \<Rightarrow> retrieval_filter \<Rightarrow> (string \<times> string) list
   \<Rightarrow> (search_type \<times> string) list \<Rightarrow> retrieval_report option" where
  "retrieve_documents env d flt output0 search_terms =
     (if search_terms = [] then None
      else Some (finish_report env flt (length search_terms)
                   (run_terms env d flt output0 search_terms)))"

section \<open>Notions used to state the properties of a run\<close>

text \<open>
  The bytes of the file of a row, when they can be read for the hash; the rows that
  the run handles, each with its search term, in the order of the two nested loops;
  the loop body as a function of such a pair; the part of the state that the copying
  reads and writes.
\<close>

definition file_bytes :: "retrieval_env \<Rightarrow> file_record \<Rightarrow> string option" where
  "file_bytes env r = (case read_bytes env (filepath r) of Inl e \<Rightarrow> None | Inr b \<Rightarrow> Some b)"

definition term_items ::
  "database \<Rightarrow> retrieval_filter \<Rightarrow> search_type \<times> string \<Rightarrow> ((search_type \<times> string) \<times> file_record) list" where
  "term_items d flt st_term = map (\<lambda>r. (st_term, r)) (filtered_results d flt st_term)"

definition work_items ::
  "database \<Rightarrow> retrieval_filter \<Rightarrow> (search_type \<times> string) list
   \<Rightarrow> ((search_type \<times> string) \<times> file_record) list" where
  "work_items d flt search_terms = concat (map (term_items d flt) search_terms)"

definition process_item ::
  "retrieval_env \<Rightarrow> bool \<Rightarrow> retrieval_state \<Rightarrow> (search_type \<times> string) \<times> file_record
   \<Rightarrow> retrieval_state" where
  "process_item env prefix st item =
     process_file env prefix (fst (fst item)) (snd (fst item)) st (snd item)"

definition copy_view ::
  "retrieval_state
   \<Rightarrow> duplicate_entry list \<times> (string \<rightharpoonup> string) \<times> found_file list \<times> (string \<times> string) list" where
  "copy_view st = (duplicates_detected st, file_hashes st, found_files_data st, output_files st)"



text \<open>
  The destination that the run computes for row \<open>k\<close>, from the files that the rows
  before it have left in the output directory, and what the copy to it does.
\<close>

definition destination_of ::
  "retrieval_env \<Rightarrow> bool \<Rightarrow> (string \<times> string) list \<Rightarrow> ((search_type \<times> string) \<times> file_record) list
   \<Rightarrow> nat \<Rightarrow> string" where
  "destination_of env prefix outdir items k =
     resolve_destination
       (map fst (output_files (foldl (process_item env prefix) (initial_state 0 outdir) (take k items))))
       (prepare_filename prefix (snd (fst (items ! k))) (filename (snd (items ! k))))"

definition copy_result ::
  "retrieval_env \<Rightarrow> bool \<Rightarrow> (string \<times> string) list \<Rightarrow> ((search_type \<times> string) \<times> file_record) list
   \<Rightarrow> nat \<Rightarrow> exn + string" where
  "copy_result env prefix outdir items k =
     copy2 env (filepath (snd (items ! k))) (destination_of env prefix outdir items k)"


definition copied_entries ::
  "retrieval_env \<Rightarrow> bool \<Rightarrow> (string \<times> string) list \<Rightarrow> ((search_type \<times> string) \<times> file_record) list
   \<Rightarrow> nat \<Rightarrow> (string \<times> string) list" where
  "copied_entries env prefix outdir items k =
     (case copy_result env prefix outdir items k of
        Inl e \<Rightarrow> []
      | Inr b \<Rightarrow> [(destination_of env prefix outdir items k, b)])"

text \<open>The copies that are still in the output directory when the reports are written.\<close>

definition copies_left :: "retrieval_report \<Rightarrow> (string \<times> string) list" where
  "copies_left rep =
     concat (map (\<lambda>entry. case snd entry of CopiedBytes b \<Rightarrow> [(fst entry, b)] | _ \<Rightarrow> [])
               (output_bundle rep))"


section \<open>Example inputs\<close>

text \<open>
  A machine without PyPDF2, holding one workbook whose first row is the number zero
  followed by a text cell, saved once as \<^verbatim>\<open>.xlsx\<close> and once as \<^verbatim>\<open>.xls\<close>.
\<close>

definition example_env :: extract_env where
  "example_env =
     \<lparr> read_text = (\<lambda>_. Inl (OtherException ''No such file or directory'')),
       pdf_pages = (\<lambda>_. Inl (ImportError ''No module named PyPDF2'')),
       docx_paragraphs = (\<lambda>_. Inr [''Dear customer'', ''Account 123456'']),
       xlsx_sheets = (\<lambda>_. Inr [[[CFloat 0, CStr ''abc''], [CNone, CNone]], [[CStr ''x'']]]),
       xls_sheets = (\<lambda>_. Inr [[[CFloat 0, CStr ''abc''], [CStr [], CStr []]], [[CStr ''x'']]]),
       float_str = (\<lambda>_. ''0.0'') \<rparr>"

text \<open>
  A share \<^verbatim>\<open>srv\<close> with a folder \<^verbatim>\<open>Temp\<close>, one file that vanishes before it can be
  measured, and a catalog that already holds a file of \<^verbatim>\<open>Temp\<close> from an earlier run.
\<close>

definition example_index_env :: index_env where
  "example_index_env =
     \<lparr>formats = example_env,
      getsize = (\<lambda>p. if p = [''srv'', ''gone.pdf''] then Inl (OtherException ''No such file'')
                     else Inr 1024),
      now = (\<lambda>k. ''2024-03-15T10:30:0'' @ str_nat k)\<rparr>"

definition example_tree :: dir_tree where
  "example_tree =
     Dir [''a.pdf'', ''gone.pdf'', ''notes.doc'']
         [(''Temp'', Dir [''t.pdf''] [(''deep'', Dir [''d.pdf''] [])]),
          (''2024'', Dir [''b.PDF''] [])]"

definition example_db :: database where
  "example_db =
     \<lparr>files = [\<lparr>row_id = 1, filename = ''t.pdf'', filepath = [''srv'', ''Temp'', ''t.pdf''],
                file_extension = ''.pdf'', file_size = 10, content_text = [],
                indexed_at = ''2024-01-01T08:00:00''\<rparr>],
      autoincrement = 1\<rparr>"


definition example_catalog :: database where
  "example_catalog =
     \<lparr>files =
        [\<lparr>row_id = 1, filename = ''123456_contract.pdf'',
          filepath = [''srv'', ''a'', ''123456_contract.pdf''], file_extension = ''.pdf'',
          file_size = 5, content_text = ''Alice Smith'', indexed_at = ''2024-03-15T10:30:00''\<rparr>,
         \<lparr>row_id = 2, filename = ''123456_contract.pdf'',
          filepath = [''srv'', ''b'', ''123456_contract.pdf''], file_extension = ''.pdf'',
          file_size = 5, content_text = ''Alice Smith'', indexed_at = ''2024-03-15T10:30:01''\<rparr>,
         \<lparr>row_id = 3, filename = ''report.pdf'',
          filepath = [''srv'', ''report.pdf''], file_extension = ''.pdf'',
          file_size = 5, content_text = ''account 123456 of Bob'', indexed_at = ''2024-03-15T10:30:02''\<rparr>,
         \<lparr>row_id = 4, filename = ''locked.pdf'',
          filepath = [''srv'', ''locked.pdf''], file_extension = ''.pdf'',
          file_size = 7, content_text = ''123456'', indexed_at = ''2024-03-15T10:30:03''\<rparr>],
      autoincrement = 4\<rparr>"

text \<open>
  The files of that share: two contracts with the same bytes, a report, a file that
  cannot be read, in the folders \<^verbatim>\<open>x\<close> and \<^verbatim>\<open>y\<close> two statements with the same
  bytes, and in the folders \<^verbatim>\<open>old\<close> and \<^verbatim>\<open>new\<close> the manifests of two earlier runs.
  A copy fails when the file cannot be read or when the destination has a separator in
  it, its directory not being there. The digests are 32 characters long, a different
  one for each of the five contents.
\<close>

definition example_files :: "path \<Rightarrow> exn + string" where
  "example_files p =
     (if p = [''srv'', ''a'', ''123456_contract.pdf''] then Inr ''PDF-A''
      else if p = [''srv'', ''b'', ''123456_contract.pdf''] then Inr ''PDF-A''
      else if p = [''srv'', ''report.pdf''] then Inr ''PDF-R''
      else if p = [''srv'', ''x'', ''statement.pdf''] then Inr ''PDF-S''
      else if p = [''srv'', ''y'', ''statement.pdf''] then Inr ''PDF-S''
      else if p = [''srv'', ''old'', ''MANIFEST.txt''] then Inr ''run of 2023''
      else if p = [''srv'', ''new'', ''MANIFEST.txt''] then Inr ''run of 2024''
      else Inl (OtherException ''Permission denied''))"

definition example_retrieval_env :: retrieval_env where
  "example_retrieval_env =
     \<lparr>read_bytes = example_files,
      md5_hexdigest = (\<lambda>bytes. if bytes = ''PDF-A'' then ''0cc175b9c0f1b6a831c399e269772661''
                               else if bytes = ''PDF-R'' then ''92eb5ffee6ae2fec3ad71c777531578f''
                               else if bytes = ''run of 2023'' then ''8277e0910d750195b448797616e091ad''
                               else if bytes = ''run of 2024'' then ''e1671797c52e15f763380b45e841ec32''
                               else ''4a8a08f09d37b73795649038408b5f33''),
      copy2 = (\<lambda>source destination.
                 if CHR ''/'' \<in> set destination
                 then Inl (OtherException ''No such file or directory'')
                 else example_files source),
      save_workbook = None\<rparr>"

definition example_filter :: retrieval_filter where
  "example_filter =
     \<lparr>date_from = [], date_to = [], allowed_extensions = [''.pdf''], bulk_rename_prefix = False,
      export_to_excel = False\<rparr>"

definition example_terms :: "(search_type \<times> string) list" where
  "example_terms = [(Account, ''123456''), (Account, ''999''), (Name, ''bob'')]"

text \<open>
  A second catalog with the two statements, both mentioning the account \<^verbatim>\<open>AC/12\<close>,
  searched with the prefix option set, as it is by default.
\<close>

definition example_slash_catalog :: database where
  "example_slash_catalog =
     \<lparr>files =
        [\<lparr>row_id = 1, filename = ''statement.pdf'',
          filepath = [''srv'', ''x'', ''statement.pdf''], file_extension = ''.pdf'',
          file_size = 5, content_text = ''Account AC/12'', indexed_at = ''2024-03-15T10:30:00''\<rparr>,
         \<lparr>row_id = 2, filename = ''statement.pdf'',
          filepath = [''srv'', ''y'', ''statement.pdf''], file_extension = ''.pdf'',
          file_size = 5, content_text = ''Account AC/12'', indexed_at = ''2024-03-15T10:30:01''\<rparr>],
      autoincrement = 2\<rparr>"

definition example_prefix_filter :: retrieval_filter where
  "example_prefix_filter = example_filter\<lparr>bulk_rename_prefix := True\<rparr>"

text \<open>
  A third catalog with the two manifests, searched for text files without the prefix
  option.
\<close>

definition example_manifest_catalog :: database where
  "example_manifest_catalog =
     \<lparr>files =
        [\<lparr>row_id = 1, filename = ''MANIFEST.txt'',
          filepath = [''srv'', ''old'', ''MANIFEST.txt''], file_extension = ''.txt'',
          file_size = 11, content_text = ''run of 2023'', indexed_at = ''2024-03-15T10:30:00''\<rparr>,
         \<lparr>row_id = 2, filename = ''MANIFEST.txt'',
          filepath = [''srv'', ''new'', ''MANIFEST.txt''], file_extension = ''.txt'',
          file_size = 11, content_text = ''run of 2024'', indexed_at = ''2024-03-15T10:30:01''\<rparr>],
      autoincrement = 2\<rparr>"

definition example_text_filter :: retrieval_filter where
  "example_text_filter = example_filter\<lparr>allowed_extensions := [''.txt'']\<rparr>"

section \<open>Properties\<close>

subsection \<open>Search terms and the date filter\<close>

lemma csv_terms_Cons: "csv_terms (header # rows) = concat (map csv_row_terms rows)"
  by (simp add: csv_terms_def)

lemma csv_row_terms_take: "csv_row_terms (take (Suc 0) row) = csv_row_terms row"
  by (cases row) simp_all

lemma csv_row_terms_length: "length (csv_row_terms row) = (if row = [] then 0 else 1)"
  by (cases row) simp_all

lemma length_concat_csv_row_terms:
  "length (concat (map csv_row_terms rows)) = length (filter (\<lambda>row. row \<noteq> []) rows)"
  by (induction rows) (simp_all add: csv_row_terms_length)

lemma sql_text_le_refl_append: "sql_text_le d (d @ rest)"
  by (induction d) simp_all

lemma sql_text_le_proper_extension: "\<not> sql_text_le (d @ c # rest) d"
  by (induction d) simp_all

lemma date_filter_from_day_included:
  "from_day \<noteq> [] \<Longrightarrow> to_day = [] \<Longrightarrow>
   date_filter from_day to_day (from_day @ rest) = sql_text_le (from_day @ rest) ''2100-12-31''"
  by (simp add: date_filter_def sql_text_le_refl_append)

text \<open>
  Claim C1 (date range inclusive at both bounds). \<^verbatim>\<open>indexed_at\<close> is written by
  \<^verbatim>\<open>datetime.now().isoformat()\<close>, so it is a date, the letter T and a time of day.
  Whenever a date-to is given, a record whose \<^verbatim>\<open>indexed_at\<close> is that very date
  followed by T and a time does not pass the filter, whatever the date-from: the upper
  bound excludes its own day. (With date-to \<^verbatim>\<open>2024-03-15\<close> a record indexed on
  15 March 2024 at 10:30 is dropped; as date-from the same day lets it pass.)
\<close>

theorem date_filter_excludes_date_to_day:
  "to_day \<noteq> [] \<Longrightarrow> date_filter from_day to_day (to_day @ CHR ''T'' # time_of_day) = False"
  by (simp add: date_filter_def sql_text_le_proper_extension)

theorem date_filter_excludes_date_to_day_witness:
  "date_filter [] ''2024-03-15'' ''2024-03-15T10:30:00.123456'' = False
   \<and> date_filter ''2024-03-15'' [] ''2024-03-15T10:30:00.123456'' = True"
proof -
  have lower: "date_filter ''2024-03-15'' [] ''2024-03-15T10:30:00.123456'' = True"
    by (simp add: date_filter_def)
  from date_filter_excludes_date_to_day [of "''2024-03-15''" "[]" "''10:30:00.123456''"] lower
  show ?thesis by simp
qed

text \<open>
  Claim C10 (search terms from a CSV file). The first row never contributes, whatever
  it holds; every later row that is not empty contributes exactly one term, of kind
  \<open>Account\<close>, which is its first cell stripped; the cells after the first have no
  influence on the terms; the terms of the file come before those of the account and
  name fields.
\<close>

theorem csv_terms_first_column_after_header:
  "csv_terms [] = []
   \<and> csv_terms [header] = []
   \<and> csv_terms (header # rows) = concat (map csv_row_terms rows)
   \<and> csv_row_terms [] = []
   \<and> csv_row_terms (cell # others) = [(Account, py_strip cell)]
   \<and> csv_terms (header # rows) = csv_terms (other_header # map (take 1) rows)
   \<and> length (csv_terms (header # rows)) = length (filter (\<lambda>row. row \<noteq> []) rows)
   \<and> collect_search_terms (Some (header # rows)) a f l
       = concat (map csv_row_terms rows) @ collect_search_terms None a f l"
proof -
  have other: "concat (map csv_row_terms (map (take 1) rows)) = concat (map csv_row_terms rows)"
    by (induction rows) (simp_all add: csv_row_terms_take)
  have collect: "collect_search_terms (Some (header # rows)) a f l
       = concat (map csv_row_terms rows) @ collect_search_terms None a f l"
    by (simp add: collect_search_terms_def Let_def csv_terms_Cons)
  show ?thesis
    using other collect
    by (simp add: csv_terms_Cons length_concat_csv_row_terms) (simp add: csv_terms_def)
qed

theorem csv_terms_first_column_after_header_witness:
  "csv_terms [[''123456'', ''Alice''], ['' 777 '', ''999999''], [], [''42'']]
     = [(Account, ''777''), (Account, ''42'')]"
proof -
  have "concat (map csv_row_terms [['' 777 '', ''999999''], [], [''42'']])
          = [(Account, ''777''), (Account, ''42'')]"
    by code_simp
  with csv_terms_first_column_after_header
         [of "[''123456'', ''Alice'']" "[['' 777 '', ''999999''], [], [''42'']]"]
  show ?thesis by simp
qed

subsection \<open>Text extraction\<close>

lemma format_try_failure: "\<exists>text. format_try fmt install (Inl e) = Inr text \<and> bracketed text"
  by (cases e) (simp_all add: bracketed_def)

lemma extract_text_total: "\<exists>text. extract_text_from_file env p = Inr text"
  by (simp add: extract_text_from_file_def split: sum.split)

lemma extract_text_unsupported:
  "extension_of p \<notin> {''.txt'', ''.csv'', ''.pdf'', ''.docx'', ''.xlsx'', ''.xls''}
   \<Longrightarrow> extract_text_from_file env p = Inr []"
  by (simp add: extract_text_from_file_def extract_body_def Let_def)

lemma extract_text_read_failure:
  "extension_of p \<in> {''.txt'', ''.csv''}
   \<Longrightarrow> read_text env p = Inl e
   \<Longrightarrow> \<exists>text. extract_text_from_file env p = Inr text \<and> bracketed text"
  by (auto simp add: extract_text_from_file_def extract_body_def Let_def bracketed_def)

lemma extract_text_format_failure:
  "(extension_of p = ''.pdf'' \<and> pdf_pages env p = Inl e)
   \<or> (extension_of p = ''.docx'' \<and> docx_paragraphs env p = Inl e)
   \<or> (extension_of p = ''.xlsx'' \<and> xlsx_sheets env p = Inl e)
   \<or> (extension_of p = ''.xls'' \<and> xls_sheets env p = Inl e)
   \<Longrightarrow> \<exists>text. extract_text_from_file env p = Inr text \<and> bracketed text"
  using format_try_failure
  apply (simp add: extract_text_from_file_def extract_body_def Let_def on_success_def)
  apply (elim disjE)
  apply (cases e; simp add: bracketed_def)+
  done

text \<open>
  Claim C6 (extraction never raises). \<open>extract_text_from_file\<close> always returns a
  text (\<open>Inr\<close>), never an exception (\<open>Inl\<close>). For an extension outside the six
  supported ones the text is empty. When the reader of the file's format raises, be
  it \<open>ImportError\<close> for a missing library or any other exception, the text returned
  starts with \<open>[\<close> and ends with \<open>]\<close>.
\<close>

theorem extract_text_from_file_never_raises:
  "\<exists>text. extract_text_from_file env p = Inr text
     \<and> (extension_of p \<notin> {''.txt'', ''.csv'', ''.pdf'', ''.docx'', ''.xlsx'', ''.xls''}
          \<longrightarrow> text = [])
     \<and> ((extension_of p \<in> {''.txt'', ''.csv''} \<and> read_text env p = Inl e)
          \<or> (extension_of p = ''.pdf'' \<and> pdf_pages env p = Inl e)
          \<or> (extension_of p = ''.docx'' \<and> docx_paragraphs env p = Inl e)
          \<or> (extension_of p = ''.xlsx'' \<and> xlsx_sheets env p = Inl e)
          \<or> (extension_of p = ''.xls'' \<and> xls_sheets env p = Inl e)
          \<longrightarrow> bracketed text)"
proof -
  obtain s where t: "extract_text_from_file env p = Inr s"
    using extract_text_total by blast
  have unsupported: "s = []"
    if "extension_of p \<notin> {''.txt'', ''.csv'', ''.pdf'', ''.docx'', ''.xlsx'', ''.xls''}"
    using extract_text_unsupported [OF that, of env] t by simp
  have plain: "bracketed s"
    if "extension_of p \<in> {''.txt'', ''.csv''} \<and> read_text env p = Inl e"
    using extract_text_read_failure [of p env e] that t by auto
  have fmt: "bracketed s"
    if "(extension_of p = ''.pdf'' \<and> pdf_pages env p = Inl e)
        \<or> (extension_of p = ''.docx'' \<and> docx_paragraphs env p = Inl e)
        \<or> (extension_of p = ''.xlsx'' \<and> xlsx_sheets env p = Inl e)
        \<or> (extension_of p = ''.xls'' \<and> xls_sheets env p = Inl e)"
    using extract_text_format_failure [OF that] t by auto
  from t unsupported plain fmt show ?thesis by blast
qed

theorem extract_text_from_file_never_raises_witness:
  "extract_text_from_file example_env [''docs'', ''a.PDF'']
     = Inr ''[PDF - Install PyPDF2: pip install PyPDF2]''
   \<and> bracketed ''[PDF - Install PyPDF2: pip install PyPDF2]''
   \<and> extract_text_from_file example_env [''docs'', ''letter.doc''] = Inr []"
proof -
  have ext: "extension_of [''docs'', ''a.PDF''] = ''.pdf''"
    by code_simp
  have raises: "pdf_pages example_env [''docs'', ''a.PDF''] = Inl (ImportError ''No module named PyPDF2'')"
    by (simp add: example_env_def)
  have result: "extract_text_from_file example_env [''docs'', ''a.PDF'']
                  = Inr ''[PDF - Install PyPDF2: pip install PyPDF2]''"
    by code_simp
  have other: "extension_of [''docs'', ''letter.doc'']
                 \<notin> {''.txt'', ''.csv'', ''.pdf'', ''.docx'', ''.xlsx'', ''.xls''}"
    by code_simp
  from extract_text_from_file_never_raises
         [of example_env "[''docs'', ''a.PDF'']" "ImportError ''No module named PyPDF2''"]
       ext raises result
  have b: "bracketed ''[PDF - Install PyPDF2: pip install PyPDF2]''"
    by auto
  from extract_text_from_file_never_raises [of example_env "[''docs'', ''letter.doc'']"] other
  have "extract_text_from_file example_env [''docs'', ''letter.doc''] = Inr []"
    by auto
  with result b show ?thesis by simp
qed

lemma py_strip_empty_iff: "py_strip s = [] \<longleftrightarrow> (\<forall>c\<in>set s. py_isspace c)"
proof -
  have "(\<forall>x\<in>set (dropWhile py_isspace s). py_isspace x) \<longleftrightarrow> (\<forall>x\<in>set s. py_isspace x)"
  proof
    assume a: "\<forall>x\<in>set (dropWhile py_isspace s). py_isspace x"
    show "\<forall>x\<in>set s. py_isspace x"
    proof (cases "dropWhile py_isspace s = []")
      case True
      then show ?thesis by (simp add: dropWhile_eq_Nil_conv)
    next
      case False
      then have "\<not> py_isspace (hd (dropWhile py_isspace s))"
        by (rule hd_dropWhile)
      moreover from False have "hd (dropWhile py_isspace s) \<in> set (dropWhile py_isspace s)"
        by simp
      ultimately show ?thesis using a by blast
    qed
  next
    assume "\<forall>x\<in>set s. py_isspace x"
    then show "\<forall>x\<in>set (dropWhile py_isspace s). py_isspace x"
      by (meson set_dropWhileD)
  qed
  then show ?thesis
    by (simp add: py_strip_def)
qed

text \<open>
  Claim C5 (the \<^verbatim>\<open>.xls\<close> branch applies the row rule of the \<^verbatim>\<open>.xlsx\<close> branch).
  The \<^verbatim>\<open>.xlsx\<close> branch keeps every cell that is not \<^verbatim>\<open>None\<close>; the \<^verbatim>\<open>.xls\<close> branch
  keeps the cells that are truthy, so it also drops a cell holding the number zero.
  On the row (0.0, abc) the \<^verbatim>\<open>.xlsx\<close> rule gives the text of the zero, a space and
  abc, the \<^verbatim>\<open>.xls\<close> rule gives abc alone.
\<close>

theorem xls_row_rule_drops_zero_cells:
  "sheets_text (xls_row_text fs) [[[CFloat 0, CStr ''abc'']]] = ''abc''
   \<and> sheets_text (xlsx_row_text fs) [[[CFloat 0, CStr ''abc'']]] = fs 0 @ '' abc''
   \<and> sheets_text (xls_row_text fs) [[[CFloat 0, CStr ''abc'']]]
       \<noteq> sheets_text (xlsx_row_text fs) [[[CFloat 0, CStr ''abc'']]]"
proof -
  have a: "\<not> py_isspace CHR ''a''"
    by (simp add: py_isspace_def)
  have strip_abc: "py_strip ''abc'' \<noteq> []"
    using a by (simp add: py_strip_empty_iff)
  have sp: "py_strip (fs 0 @ '' abc'') \<noteq> []"
    using a by (simp add: py_strip_empty_iff)
  show ?thesis
    using strip_abc sp
    by (simp add: sheets_text_def xls_row_text_def xlsx_row_text_def)
qed

subsection \<open>Indexing\<close>

lemma index_file_progress:
  "index_file env ic (st\<lparr>progress := pr\<rparr>) p = (index_file env ic st p)\<lparr>progress := pr\<rparr>"
  by (simp add: index_file_def Let_def split: sum.split)

lemma foldl_index_file_progress:
  "foldl (index_file env ic) (st\<lparr>progress := pr\<rparr>) ps
     = (foldl (index_file env ic) st ps)\<lparr>progress := pr\<rparr>"
  by (induction ps arbitrary: st) (simp_all add: index_file_progress)

lemma index_chunks_flat:
  "0 < n \<Longrightarrow> \<exists>pr. foldl (index_chunk env ic tot) st (chunks_of n ps)
                    = (foldl (index_file env ic) st ps)\<lparr>progress := pr\<rparr>"
proof (induction n ps arbitrary: st rule: chunks_of.induct)
  case (1 n xs)
  show ?case
  proof (cases "xs = []")
    case True
    then have "foldl (index_chunk env ic tot) st (chunks_of n xs) = st\<lparr>progress := progress st\<rparr>"
      by (subst chunks_of.simps) simp
    with True show ?thesis by (metis foldl_Nil)
  next
    case False
    let ?st1 = "foldl (index_file env ic) st (take n xs)"
    let ?st1' = "index_chunk env ic tot st (take n xs)"
    have st1': "?st1' = ?st1\<lparr>progress := progress ?st1 @ [(indexed_count ?st1, tot)]\<rparr>"
      by (simp add: index_chunk_def Let_def)
    from False 1 obtain pr where
      pr: "foldl (index_chunk env ic tot) ?st1' (chunks_of n (drop n xs))
            = (foldl (index_file env ic) ?st1' (drop n xs))\<lparr>progress := pr\<rparr>"
      by blast
    have "foldl (index_chunk env ic tot) st (chunks_of n xs)
            = foldl (index_chunk env ic tot) ?st1' (chunks_of n (drop n xs))"
      using False 1(2) by (subst chunks_of.simps) simp
    also have "\<dots> = (foldl (index_file env ic) ?st1' (drop n xs))\<lparr>progress := pr\<rparr>"
      by (rule pr)
    also have "\<dots> = (foldl (index_file env ic) ?st1 (drop n xs))\<lparr>progress := pr\<rparr>"
      by (simp only: st1' foldl_index_file_progress) simp
    also have "foldl (index_file env ic) ?st1 (drop n xs) = foldl (index_file env ic) st xs"
      by (metis append_take_drop_id foldl_append)
    finally show ?thesis by blast
  qed
qed

text \<open>A file is indexed exactly when getsize succeeds.\<close>

lemma index_file_cases:
  "(\<exists>e. getsize env p = Inl e) \<and> index_file env ic st p = st
   \<or> (\<exists>sz r. getsize env p = Inr sz \<and> filepath r = p
        \<and> db (index_file env ic st p)
            = (db st)\<lparr>files := files (db st) @ [r], autoincrement := autoincrement (db st) + 1\<rparr>
        \<and> indexed_count (index_file env ic st p) = indexed_count st + 1)"
proof (cases "getsize env p")
  case (Inl e)
  then show ?thesis by (simp add: index_file_def Let_def)
next
  case (Inr sz)
  obtain content where c: "(if ic then extract_text_from_file (formats env) p else Inr []) = Inr content"
    using extract_text_total [of "formats env" p] by (cases ic) auto
  let ?r = "\<lparr>row_id = autoincrement (db st) + 1, filename = basename p, filepath = p,
             file_extension = py_lower (snd (splitext (basename p))), file_size = sz,
             content_text = content, indexed_at = now env (indexed_count st)\<rparr>"
  have "filepath ?r = p" by simp
  moreover have "db (index_file env ic st p)
            = (db st)\<lparr>files := files (db st) @ [?r], autoincrement := autoincrement (db st) + 1\<rparr>"
    using Inr c by (simp add: index_file_def Let_def insert_into_files_def)
  moreover have "indexed_count (index_file env ic st p) = indexed_count st + 1"
    using Inr c by (simp add: index_file_def Let_def)
  ultimately show ?thesis using Inr by blast
qed

lemma scan_files_incremental:
  "scan_files extensions True existing dirpath names
     = filter (\<lambda>p. p \<notin> existing) (scan_files extensions False other dirpath names)"
  by (induction names) (simp_all add: scan_files_def)

lemma collect_all_files_incremental:
  "collect_all_files ex extensions True existing directory tree
     = filter (\<lambda>p. p \<notin> existing) (collect_all_files ex extensions False other directory tree)"
proof -
  have "concat (map (\<lambda>visit. scan_files extensions True existing (fst visit) (snd (snd visit))) vs)
          = filter (\<lambda>p. p \<notin> existing)
              (concat (map (\<lambda>visit. scan_files extensions False other (fst visit) (snd (snd visit))) vs))"
    for vs :: "(path \<times> string list \<times> string list) list"
    by (induction vs) (simp_all add: scan_files_incremental [where other = other])
  then show ?thesis by (simp add: collect_all_files_def)
qed

lemma foldl_index_file_db:
  "\<exists>new. db (foldl (index_file env ic) st ps)
            = (db st)\<lparr>files := files (db st) @ new,
                      autoincrement := autoincrement (db st) + length new\<rparr>
         \<and> map filepath new = filter (\<lambda>p. \<exists>sz. getsize env p = Inr sz) ps
         \<and> indexed_count (foldl (index_file env ic) st ps) = indexed_count st + length new"
proof (induction ps arbitrary: st)
  case Nil
  show ?case by (rule exI [of _ "[]"]) simp
next
  case (Cons p ps)
  let ?st1 = "index_file env ic st p"
  from Cons [of ?st1] obtain new where
    new: "db (foldl (index_file env ic) ?st1 ps)
            = (db ?st1)\<lparr>files := files (db ?st1) @ new,
                        autoincrement := autoincrement (db ?st1) + length new\<rparr>"
         "map filepath new = filter (\<lambda>p. \<exists>sz. getsize env p = Inr sz) ps"
         "indexed_count (foldl (index_file env ic) ?st1 ps) = indexed_count ?st1 + length new"
    by blast
  from index_file_cases [of env p ic st] show ?case
  proof (elim disjE conjE exE)
    fix e
    assume "getsize env p = Inl e" "index_file env ic st p = st"
    with new show ?thesis by auto
  next
    fix sz r
    assume a: "getsize env p = Inr sz" "filepath r = p"
      "db ?st1 = (db st)\<lparr>files := files (db st) @ [r], autoincrement := autoincrement (db st) + 1\<rparr>"
      "indexed_count ?st1 = indexed_count st + 1"
    with new have "db (foldl (index_file env ic) st (p # ps))
            = (db st)\<lparr>files := files (db st) @ (r # new),
                      autoincrement := autoincrement (db st) + length (r # new)\<rparr>
         \<and> map filepath (r # new) = filter (\<lambda>p. \<exists>sz. getsize env p = Inr sz) (p # ps)
         \<and> indexed_count (foldl (index_file env ic) st (p # ps)) = indexed_count st + length (r # new)"
      by simp
    then show ?thesis by blast
  qed
qed

lemma index_directory_result:
  "\<exists>new. snd (index_directory env setting tree db0 directory extensions ic incremental)
            = (if incremental then db0 else delete_from_files db0)
                \<lparr>files := (if incremental then files db0 else []) @ new,
                 autoincrement := autoincrement db0 + length new\<rparr>
         \<and> map filepath new
            = filter (\<lambda>p. \<exists>sz. getsize env p = Inr sz)
                (collect_all_files (exclude_folders_of setting) extensions incremental
                   (if \<not> incremental then {} else set (map filepath (files db0))) directory tree)
         \<and> (fst (index_directory env setting tree db0 directory extensions ic incremental) = NoFilesFound
              \<or> fst (index_directory env setting tree db0 directory extensions ic incremental)
                   = Complete (length new))"
proof -
  let ?db1 = "if \<not> incremental then delete_from_files db0 else db0"
  let ?all = "collect_all_files (exclude_folders_of setting) extensions incremental
                (if \<not> incremental then {} else set (map filepath (files db0))) directory tree"
  let ?init = "\<lparr>db = ?db1, indexed_count = 0, progress = []\<rparr>"
  let ?res = "index_directory env setting tree db0 directory extensions ic incremental"
  show ?thesis
  proof (cases "?all = []")
    case True
    then have r: "?res = (NoFilesFound, ?db1)"
      by (simp add: index_directory_def Let_def)
    have "snd ?res = (if incremental then db0 else delete_from_files db0)
                \<lparr>files := (if incremental then files db0 else []) @ [],
                 autoincrement := autoincrement db0 + length ([] :: file_record list)\<rparr>"
      by (simp add: r delete_from_files_def)
    moreover have "map filepath [] = filter (\<lambda>p. \<exists>sz. getsize env p = Inr sz) ?all"
      using True by simp
    moreover have "fst ?res = NoFilesFound" by (simp add: r)
    ultimately show ?thesis by blast
  next
    case False
    obtain pr where pr: "foldl (index_chunk env ic (length ?all)) ?init (chunks_of 50 ?all)
                    = (foldl (index_file env ic) ?init ?all)\<lparr>progress := pr\<rparr>"
      using index_chunks_flat [of 50 env ic "length ?all" ?init ?all] by auto
    from False have r: "?res = (Complete (indexed_count (foldl (index_file env ic) ?init ?all)),
                                db (foldl (index_file env ic) ?init ?all))"
      by (simp add: index_directory_def Let_def pr)
    from foldl_index_file_db [of env ic ?init ?all] obtain new where
      new: "db (foldl (index_file env ic) ?init ?all)
              = (db ?init)\<lparr>files := files (db ?init) @ new,
                           autoincrement := autoincrement (db ?init) + length new\<rparr>"
           "map filepath new = filter (\<lambda>p. \<exists>sz. getsize env p = Inr sz) ?all"
           "indexed_count (foldl (index_file env ic) ?init ?all) = indexed_count ?init + length new"
      by blast
    have "snd ?res = (if incremental then db0 else delete_from_files db0)
                \<lparr>files := (if incremental then files db0 else []) @ new,
                 autoincrement := autoincrement db0 + length new\<rparr>"
      using new(1) by (simp add: r delete_from_files_def)
    moreover have "fst ?res = Complete (length new)"
      using new(3) by (simp add: r)
    ultimately show ?thesis using new(2) by blast
  qed
qed

lemma os_walk_visits_kept:
  "visit \<in> set (os_walk keep dirpath tree)
   \<Longrightarrow> \<exists>rel. fst visit = dirpath @ rel \<and> (\<forall>d\<in>set rel. keep d)"
proof (induction keep dirpath tree arbitrary: visit rule: os_walk.induct)
  case (1 keep dirpath names subdirs)
  from "1.prems" consider
      (here) "visit = (dirpath, map fst subdirs, names)"
    | (below) sub where "sub \<in> set subdirs" "keep (fst sub)"
        "visit \<in> set (os_walk keep (dirpath @ [fst sub]) (snd sub))"
    by auto
  then show ?case
  proof cases
    case here
    then have "fst visit = dirpath @ [] \<and> (\<forall>d\<in>set []. keep d)" by simp
    then show ?thesis by blast
  next
    case below
    then have "sub \<in> set (filter (\<lambda>sub. keep (fst sub)) subdirs)" by simp
    from "1.IH" [OF this below(3)] obtain rel where
      rel: "fst visit = (dirpath @ [fst sub]) @ rel" "\<forall>d\<in>set rel. keep d"
      by blast
    with below(2) have "fst visit = dirpath @ (fst sub # rel) \<and> (\<forall>d\<in>set (fst sub # rel). keep d)"
      by simp
    then show ?thesis by blast
  qed
qed

lemma scan_files_paths:
  "p \<in> set (scan_files extensions incremental existing dirpath names)
   \<Longrightarrow> \<exists>name. p = dirpath @ [name]"
  by (auto simp add: scan_files_def split: if_splits)

lemma collect_all_files_paths:
  assumes "p \<in> set (collect_all_files ex extensions incremental existing directory tree)"
  shows "\<exists>rel name. p = directory @ rel @ [name] \<and> (\<forall>d\<in>set rel. py_lower d \<notin> set ex)"
proof -
  from assms obtain visit where
    v: "visit \<in> set (os_walk (\<lambda>d. py_lower d \<notin> set ex) directory tree)"
       "p \<in> set (scan_files extensions incremental existing (fst visit) (snd (snd visit)))"
    by (auto simp add: collect_all_files_def)
  from os_walk_visits_kept [OF v(1)] obtain rel where
    rel: "fst visit = directory @ rel" "\<forall>d\<in>set rel. py_lower d \<notin> set ex"
    by blast
  from scan_files_paths [OF v(2)] obtain name where "p = fst visit @ [name]"
    by blast
  with rel show ?thesis by auto
qed

lemma exclusion_entry_matches:
  "e \<in> set (py_split_comma setting) \<Longrightarrow> py_strip e \<noteq> [] \<Longrightarrow> py_lower d = py_lower (py_strip e)
   \<Longrightarrow> py_lower d \<in> set (exclude_folders_of setting)"
  by (auto simp add: exclude_folders_of_def)

lemma excluded_not_visited:
  assumes "\<not> keep d"
  shows "(directory @ rel @ [d] @ below, dirs, names) \<notin> set (os_walk keep directory tree)"
proof
  assume "(directory @ rel @ [d] @ below, dirs, names) \<in> set (os_walk keep directory tree)"
  from os_walk_visits_kept [OF this] obtain rel' where
    "directory @ rel @ [d] @ below = directory @ rel'" "\<forall>x\<in>set rel'. keep x"
    by auto
  then have "d \<in> set rel'" "\<forall>x\<in>set rel'. keep x" by auto
  with assms show False by blast
qed

lemma excluded_not_collected:
  assumes "py_lower d \<in> set ex" "below \<noteq> []"
  shows "directory @ rel @ [d] @ below
           \<notin> set (collect_all_files ex extensions incremental existing directory tree)"
proof
  assume "directory @ rel @ [d] @ below
            \<in> set (collect_all_files ex extensions incremental existing directory tree)"
  from collect_all_files_paths [OF this] obtain rel' name where
    eq: "directory @ rel @ [d] @ below = directory @ rel' @ [name]"
    and kept: "\<forall>x\<in>set rel'. py_lower x \<notin> set ex"
    by blast
  from eq have "rel @ [d] @ below = rel' @ [name]" by simp
  with assms(2) have "rel @ [d] @ butlast below = rel'"
    by (metis append_assoc butlast_append butlast_snoc list.distinct(1) append_is_Nil_conv)
  then have "d \<in> set rel'" by auto
  with kept assms(1) show False by blast
qed

text \<open>
  Claim C7 (an incremental run never touches an existing record). After an
  incremental run the table is the table as it was, row for row, followed by the new
  rows, and no new row has the path of a row that was there before.
\<close>

theorem incremental_run_keeps_existing_records:
  "\<exists>new. files (snd (index_directory env setting tree db0 directory extensions index_content True))
            = files db0 @ new
         \<and> set (map filepath new) \<inter> set (map filepath (files db0)) = {}"
proof -
  from index_directory_result [of env setting tree db0 directory extensions index_content True]
  obtain new where
    new: "snd (index_directory env setting tree db0 directory extensions index_content True)
            = db0\<lparr>files := files db0 @ new, autoincrement := autoincrement db0 + length new\<rparr>"
         "map filepath new
            = filter (\<lambda>p. \<exists>sz. getsize env p = Inr sz)
                (collect_all_files (exclude_folders_of setting) extensions True
                   (set (map filepath (files db0))) directory tree)"
    by auto
  have "set (map filepath new) \<inter> set (map filepath (files db0)) = {}"
    unfolding new(2) collect_all_files_incremental [where other = "{}"] by auto
  with new(1) show ?thesis by simp
qed

theorem incremental_run_keeps_existing_records_witness:
  "take 1 (files (snd (index_directory example_index_env ''temp, archive'' example_tree example_db
                        [''srv''] [''.pdf''] False True)))
     = files example_db
   \<and> map filepath (drop 1 (files (snd (index_directory example_index_env ''temp, archive''
                        example_tree example_db [''srv''] [''.pdf''] False True))))
     = [[''srv'', ''a.pdf''], [''srv'', ''2024'', ''b.PDF'']]"
proof -
  let ?run = "index_directory example_index_env ''temp, archive'' example_tree example_db
                [''srv''] [''.pdf''] False True"
  have paths: "map filepath (files (snd ?run))
                 = [[''srv'', ''Temp'', ''t.pdf''], [''srv'', ''a.pdf''], [''srv'', ''2024'', ''b.PDF'']]"
    by code_simp
  have len: "length (files example_db) = 1"
    by (simp add: example_db_def)
  from incremental_run_keeps_existing_records
         [of example_index_env "''temp, archive''" example_tree example_db "[''srv'']" "[''.pdf'']" False]
  obtain new where new: "files (snd ?run) = files example_db @ new"
    by blast
  from new len have "take 1 (files (snd ?run)) = files example_db"
    by simp
  moreover from paths have "map filepath (drop 1 (files (snd ?run)))
      = [[''srv'', ''a.pdf''], [''srv'', ''2024'', ''b.PDF'']]"
    by (simp add: drop_map [symmetric])
  ultimately show ?thesis by simp
qed



text \<open>
  Claim C4 (exclusion correctness), amended. When the name \<open>d\<close> of a subdirectory
  matches an entry of the exclusion field (the entry stripped, both in lower case),
  the walk never visits that subdirectory or a directory below it, the scan keeps no
  file below it whatever its extension, and a row of the resulting table whose path
  lies below it can only be a row that an incremental run found in the table when it
  started. After a full run no such row exists.
\<close>

theorem excluded_subtree_never_indexed:
  assumes "e \<in> set (py_split_comma setting)" and "py_strip e \<noteq> []"
    and "py_lower d = py_lower (py_strip e)"
  shows "(directory @ rel @ [d] @ below, dirs, names)
           \<notin> set (os_walk (\<lambda>x. py_lower x \<notin> set (exclude_folders_of setting)) directory tree)
         \<and> (below \<noteq> [] \<longrightarrow>
              directory @ rel @ [d] @ below
                \<notin> set (collect_all_files (exclude_folders_of setting) extensions incremental
                         existing directory tree))
         \<and> (below \<noteq> [] \<and> r \<in> set (files (snd (index_directory env setting tree db0 directory
                                                   extensions index_content incremental)))
              \<and> filepath r = directory @ rel @ [d] @ below
              \<longrightarrow> incremental \<and> r \<in> set (files db0))"
proof -
  from assms have ex: "py_lower d \<in> set (exclude_folders_of setting)"
    by (rule exclusion_entry_matches)
  then have visited: "(directory @ rel @ [d] @ below, dirs, names)
           \<notin> set (os_walk (\<lambda>x. py_lower x \<notin> set (exclude_folders_of setting)) directory tree)"
    by (intro excluded_not_visited) simp
  have collected: "directory @ rel @ [d] @ below
                \<notin> set (collect_all_files (exclude_folders_of setting) extensions inc
                         ex_files directory tree)" if "below \<noteq> []" for inc ex_files
    using ex that by (rule excluded_not_collected)
  have indexed: "incremental \<and> r \<in> set (files db0)"
    if b: "below \<noteq> []"
    and r: "r \<in> set (files (snd (index_directory env setting tree db0 directory
                                   extensions index_content incremental)))"
    and p: "filepath r = directory @ rel @ [d] @ below"
  proof -
    from index_directory_result [of env setting tree db0 directory extensions index_content incremental]
    obtain new where
      new: "files (snd (index_directory env setting tree db0 directory extensions index_content incremental))
              = (if incremental then files db0 else []) @ new"
           "map filepath new
              = filter (\<lambda>p. \<exists>sz. getsize env p = Inr sz)
                  (collect_all_files (exclude_folders_of setting) extensions incremental
                     (if \<not> incremental then {} else set (map filepath (files db0))) directory tree)"
      by (cases incremental) (auto simp add: delete_from_files_def)
    have "r \<notin> set new"
    proof
      assume "r \<in> set new"
      then have "filepath r \<in> set (map filepath new)" by simp
      then have "filepath r \<in> set (collect_all_files (exclude_folders_of setting) extensions incremental
                     (if \<not> incremental then {} else set (map filepath (files db0))) directory tree)"
        unfolding new(2) by simp
      with collected [OF b] p show False by simp
    qed
    with r new(1) show ?thesis by (cases incremental) auto
  qed
  from visited collected indexed show ?thesis by blast
qed

text \<open>
  The claim as stated fails for an incremental run: the record of a file under
  \<^verbatim>\<open>Temp\<close>, in the catalog from an earlier run, is still in the index after an
  incremental run that excludes \<^verbatim>\<open>temp\<close>.
\<close>

theorem excluded_subtree_record_remains:
  "py_lower ''Temp'' \<in> set (exclude_folders_of ''temp, archive'')
   \<and> [''srv'', ''Temp'', ''t.pdf'']
       \<in> set (map filepath (files (snd (index_directory example_index_env ''temp, archive''
                 example_tree example_db [''srv''] [''.pdf''] False True))))"
  by code_simp

theorem excluded_subtree_never_indexed_witness:
  "([''srv'', ''Temp''], [''deep''], [''t.pdf''])
      \<notin> set (os_walk (\<lambda>x. py_lower x \<notin> set (exclude_folders_of ''temp, archive'')) [''srv'']
                example_tree)
   \<and> [''srv'', ''Temp'', ''deep'', ''d.pdf'']
      \<notin> set (collect_all_files (exclude_folders_of ''temp, archive'') [''.pdf''] False {} [''srv'']
                example_tree)
   \<and> map filepath (files (snd (index_directory example_index_env ''temp, archive''
                 example_tree example_db [''srv''] [''.pdf''] False False)))
      = [[''srv'', ''a.pdf''], [''srv'', ''2024'', ''b.PDF'']]"
proof -
  have e: "'' archive'' \<in> set (py_split_comma ''temp, archive'')"
          "''temp'' \<in> set (py_split_comma ''temp, archive'')"
    by code_simp+
  have s: "py_strip ''temp'' \<noteq> []"
    by code_simp
  have l: "py_lower ''Temp'' = py_lower (py_strip ''temp'')"
    by code_simp
  have full: "map filepath (files (snd (index_directory example_index_env ''temp, archive''
                 example_tree example_db [''srv''] [''.pdf''] False False)))
      = [[''srv'', ''a.pdf''], [''srv'', ''2024'', ''b.PDF'']]"
    by code_simp
  from excluded_subtree_never_indexed [OF e(2) s l, where directory = "[''srv'']" and rel = "[]"
         and below = "[]" and dirs = "[''deep'']" and names = "[''t.pdf'']" and tree = example_tree]
  have v: "([''srv'', ''Temp''], [''deep''], [''t.pdf''])
      \<notin> set (os_walk (\<lambda>x. py_lower x \<notin> set (exclude_folders_of ''temp, archive'')) [''srv'']
                example_tree)"
    by simp
  from excluded_subtree_never_indexed [OF e(2) s l, where directory = "[''srv'']" and rel = "[]"
         and below = "[''deep'', ''d.pdf'']" and tree = example_tree and extensions = "[''.pdf'']"
         and incremental = False and existing = "{}"]
  have c: "[''srv'', ''Temp'', ''deep'', ''d.pdf'']
      \<notin> set (collect_all_files (exclude_folders_of ''temp, archive'') [''.pdf''] False {} [''srv'']
                example_tree)"
    by simp
  from v c full show ?thesis by simp
qed

subsection \<open>Retrieval: destinations, the loop body, the loop over the terms\<close>

lemma name_conflict_loop_fresh:
  "name_conflict_loop existing base ext dest counter \<notin> set existing"
proof (induction existing base ext dest counter rule: name_conflict_loop.induct)
  case (1 existing base ext dest counter)
  then show ?case
    by (subst name_conflict_loop.simps) simp
qed

lemma name_conflict_loop_free: "dest \<notin> set existing \<Longrightarrow> name_conflict_loop existing base ext dest counter = dest"
  by (subst name_conflict_loop.simps) simp

lemma name_conflict_loop_suffix:
  "dest \<in> set existing \<Longrightarrow>
   \<exists>k\<ge>counter. name_conflict_loop existing base ext dest counter = base @ ''_'' @ str_nat k @ ext
        \<and> (\<forall>j. counter \<le> j \<and> j < k \<longrightarrow> base @ ''_'' @ str_nat j @ ext \<in> set existing)"
proof (induction existing base ext dest counter rule: name_conflict_loop.induct)
  case (1 existing base ext dest counter)
  let ?next = "base @ ''_'' @ str_nat counter @ ext"
  have step: "name_conflict_loop existing base ext dest counter
                = name_conflict_loop existing base ext ?next (counter + 1)"
    using "1.prems" by (subst name_conflict_loop.simps) simp
  show ?case
  proof (cases "?next \<in> set existing")
    case False
    then have "name_conflict_loop existing base ext dest counter = ?next"
      by (simp add: step name_conflict_loop_free)
    then have "counter \<ge> counter \<and> name_conflict_loop existing base ext dest counter = ?next
        \<and> (\<forall>j. counter \<le> j \<and> j < counter \<longrightarrow> base @ ''_'' @ str_nat j @ ext \<in> set existing)"
      by auto
    then show ?thesis by blast
  next
    case True
    from "1.IH" [OF "1.prems" True] obtain k where
      k: "k \<ge> counter + 1"
         "name_conflict_loop existing base ext ?next (counter + 1) = base @ ''_'' @ str_nat k @ ext"
         "\<forall>j. counter + 1 \<le> j \<and> j < k \<longrightarrow> base @ ''_'' @ str_nat j @ ext \<in> set existing"
      by blast
    have "\<forall>j. counter \<le> j \<and> j < k \<longrightarrow> base @ ''_'' @ str_nat j @ ext \<in> set existing"
    proof (intro allI impI)
      fix j assume j: "counter \<le> j \<and> j < k"
      show "base @ ''_'' @ str_nat j @ ext \<in> set existing"
      proof (cases "j = counter")
        case True
        with \<open>?next \<in> set existing\<close> show ?thesis by simp
      next
        case False
        with j have "counter + 1 \<le> j \<and> j < k" by simp
        with k(3) show ?thesis by blast
      qed
    qed
    with k(1,2) step have "k \<ge> counter \<and> name_conflict_loop existing base ext dest counter = base @ ''_'' @ str_nat k @ ext
        \<and> (\<forall>j. counter \<le> j \<and> j < k \<longrightarrow> base @ ''_'' @ str_nat j @ ext \<in> set existing)"
      by simp
    then show ?thesis by blast
  qed
qed

lemma resolve_destination_fresh: "resolve_destination existing name \<notin> set existing"
  by (simp add: resolve_destination_def name_conflict_loop_fresh case_prod_beta)

lemma resolve_destination_free: "name \<notin> set existing \<Longrightarrow> resolve_destination existing name = name"
  by (simp add: resolve_destination_def)

lemma resolve_destination_suffix:
  "name \<in> set existing \<Longrightarrow>
   \<exists>k\<ge>1. resolve_destination existing name
            = fst (splitext name) @ ''_'' @ str_nat k @ snd (splitext name)
        \<and> (\<forall>j. 1 \<le> j \<and> j < k
              \<longrightarrow> fst (splitext name) @ ''_'' @ str_nat j @ snd (splitext name) \<in> set existing)"
  using name_conflict_loop_suffix [of name existing 1 "fst (splitext name)" "snd (splitext name)"]
  by (simp add: resolve_destination_def case_prod_beta)

lemma check_duplicate_frame:
  "output_files (snd (check_duplicate h name trm st)) = output_files st
   \<and> found_files_data (snd (check_duplicate h name trm st)) = found_files_data st
   \<and> manifest_data (snd (check_duplicate h name trm st)) = manifest_data st
   \<and> results_summary (snd (check_duplicate h name trm st)) = results_summary st
   \<and> missing_files (snd (check_duplicate h name trm st)) = missing_files st
   \<and> total_found (snd (check_duplicate h name trm st)) = total_found st
   \<and> processed (snd (check_duplicate h name trm st)) = processed st"
  by (simp add: check_duplicate_def split: option.split)



text \<open>The loop body in two steps: the duplicate check, then the copy.\<close>

lemma process_file_steps:
  "process_file env prefix stype trm st file
     = (case copy2 env (filepath file)
               (resolve_destination (map fst (output_files st))
                  (prepare_filename prefix trm (filename file))) of
          Inl e \<Rightarrow>
            (snd (check_duplicate (map_option (md5_hexdigest env) (file_bytes env file))
                    (filename file) trm st))
              \<lparr>manifest_data := manifest_data st @ [ErrorLine (str_exn e)]\<rparr>
        | Inr b \<Rightarrow>
            (snd (check_duplicate (map_option (md5_hexdigest env) (file_bytes env file))
                    (filename file) trm st))
              \<lparr>output_files := output_files st
                 @ [(resolve_destination (map fst (output_files st))
                       (prepare_filename prefix trm (filename file)), b)],
               manifest_data := manifest_data st
                 @ [FoundLine (prepare_filename prefix trm (filename file))
                      (fst (check_duplicate (map_option (md5_hexdigest env) (file_bytes env file))
                              (filename file) trm st)),
                    SourceLine (filepath file), SizeLine (file_size file)],
               found_files_data := found_files_data st
                 @ [\<lparr>search_term = trm, search_kind = stype, source_row = file,
                     output_filename = basename_of_name
                       (resolve_destination (map fst (output_files st))
                          (prepare_filename prefix trm (filename file))),
                     is_duplicate = fst (check_duplicate
                       (map_option (md5_hexdigest env) (file_bytes env file))
                       (filename file) trm st)\<rparr>]\<rparr>)"
proof -
  have h: "(case read_bytes env (filepath file) of Inl e \<Rightarrow> None
            | Inr bytes \<Rightarrow> Some (md5_hexdigest env bytes))
             = map_option (md5_hexdigest env) (file_bytes env file)"
    by (simp add: file_bytes_def split: sum.split)
  note fr = check_duplicate_frame
    [of "map_option (md5_hexdigest env) (file_bytes env file)" "filename file" trm st]
  show ?thesis
    unfolding process_file_def h using fr
    by (simp add: Let_def case_prod_beta split: sum.split)
qed



lemma process_file_copy_failed:
  "copy2 env (filepath file)
     (resolve_destination (map fst (output_files st)) (prepare_filename prefix trm (filename file)))
     = Inl e
   \<Longrightarrow> output_files (process_file env prefix stype trm st file) = output_files st
       \<and> found_files_data (process_file env prefix stype trm st file) = found_files_data st"
  using check_duplicate_frame
    [of "map_option (md5_hexdigest env) (file_bytes env file)" "filename file" trm st]
  by (simp add: process_file_steps)

lemma process_file_copied:
  "copy2 env (filepath file)
     (resolve_destination (map fst (output_files st)) (prepare_filename prefix trm (filename file)))
     = Inr b
   \<Longrightarrow> output_files (process_file env prefix stype trm st file)
         = output_files st
           @ [(resolve_destination (map fst (output_files st))
                 (prepare_filename prefix trm (filename file)), b)]
       \<and> found_files_data (process_file env prefix stype trm st file)
         = found_files_data st
           @ [\<lparr>search_term = trm, search_kind = stype, source_row = file,
               output_filename = basename_of_name
                 (resolve_destination (map fst (output_files st))
                    (prepare_filename prefix trm (filename file))),
               is_duplicate = fst (check_duplicate
                 (map_option (md5_hexdigest env) (file_bytes env file))
                 (filename file) trm st)\<rparr>]"
  by (simp add: process_file_steps)

lemma check_duplicate_copy_view:
  "copy_view st = copy_view st' \<Longrightarrow>
   fst (check_duplicate h name trm st) = fst (check_duplicate h name trm st')
   \<and> copy_view (snd (check_duplicate h name trm st)) = copy_view (snd (check_duplicate h name trm st'))"
  by (simp add: check_duplicate_def copy_view_def split: option.split)

lemma process_file_copy_view:
  assumes "copy_view st = copy_view st'"
  shows "copy_view (process_file env prefix stype trm st file)
           = copy_view (process_file env prefix stype trm st' file)"
proof -
  let ?h = "map_option (md5_hexdigest env) (file_bytes env file)"
  from assms have same: "output_files st = output_files st'"
    "found_files_data st = found_files_data st'"
    by (simp_all add: copy_view_def)
  from check_duplicate_copy_view [OF assms, of ?h "filename file" trm]
  have cd: "fst (check_duplicate ?h (filename file) trm st) = fst (check_duplicate ?h (filename file) trm st')"
       "duplicates_detected (snd (check_duplicate ?h (filename file) trm st))
          = duplicates_detected (snd (check_duplicate ?h (filename file) trm st'))"
       "file_hashes (snd (check_duplicate ?h (filename file) trm st))
          = file_hashes (snd (check_duplicate ?h (filename file) trm st'))"
    by (simp_all add: copy_view_def)
  note fr = check_duplicate_frame [of ?h "filename file" trm st]
    check_duplicate_frame [of ?h "filename file" trm st']
  show ?thesis
    using cd same fr
    by (simp add: process_file_steps copy_view_def split: sum.split)
qed


lemma foldl_process_file_items:
  "foldl (process_file env prefix (fst t) (snd t)) st rows
     = foldl (process_item env prefix) st (map (\<lambda>r. (t, r)) rows)"
  by (induction rows arbitrary: st) (simp_all add: process_item_def)

lemma foldl_process_item_copy_view:
  "copy_view st = copy_view st' \<Longrightarrow>
   copy_view (foldl (process_item env prefix) st items)
     = copy_view (foldl (process_item env prefix) st' items)"
proof (induction items arbitrary: st st')
  case Nil
  then show ?case by simp
next
  case (Cons item items)
  from Cons.prems have "copy_view (process_item env prefix st item)
                          = copy_view (process_item env prefix st' item)"
    unfolding process_item_def by (rule process_file_copy_view)
  from Cons.IH [OF this] show ?case by simp
qed

lemma process_term_copy_view:
  "copy_view (process_term env d flt st t)
     = copy_view (foldl (process_item env (bulk_rename_prefix flt)) st (term_items d flt t))"
proof (cases "filtered_results d flt t = []")
  case True
  then show ?thesis
    by (simp add: process_term_def Let_def term_items_def copy_view_def)
next
  case False
  let ?st1 = "st\<lparr>manifest_data := manifest_data st @ [SearchTermLine (snd t) (fst t)],
                  results_summary := results_summary st @ [(snd t, length (filtered_results d flt t))],
                  total_found := total_found st + length (filtered_results d flt t)\<rparr>"
  have "copy_view ?st1 = copy_view st"
    by (simp add: copy_view_def)
  from foldl_process_item_copy_view [OF this]
  have "copy_view (foldl (process_item env (bulk_rename_prefix flt)) ?st1 (term_items d flt t))
          = copy_view (foldl (process_item env (bulk_rename_prefix flt)) st (term_items d flt t))" .
  moreover have "copy_view (process_term env d flt st t)
          = copy_view (foldl (process_item env (bulk_rename_prefix flt)) ?st1 (term_items d flt t))"
    using False
    by (simp add: process_term_def Let_def term_items_def foldl_process_file_items copy_view_def)
  ultimately show ?thesis by simp
qed



lemma foldl_process_term_copy_view:
  "copy_view st = copy_view st' \<Longrightarrow>
   copy_view (foldl (process_term env d flt) st ts)
     = copy_view (foldl (process_item env (bulk_rename_prefix flt)) st' (work_items d flt ts))"
proof (induction ts arbitrary: st st')
  case Nil
  then show ?case by (simp add: work_items_def)
next
  case (Cons t ts)
  have "copy_view (process_term env d flt st t)
          = copy_view (foldl (process_item env (bulk_rename_prefix flt)) st' (term_items d flt t))"
    using process_term_copy_view [of env d flt st t]
          foldl_process_item_copy_view [OF Cons.prems, of env "bulk_rename_prefix flt" "term_items d flt t"]
    by simp
  from Cons.IH [OF this] show ?case
    by (simp add: work_items_def)
qed




lemma run_terms_copy_view:
  "copy_view (run_terms env d flt outdir ts)
     = copy_view (foldl (process_item env (bulk_rename_prefix flt)) (initial_state 0 outdir)
                    (work_items d flt ts))"
  unfolding run_terms_def
  by (rule foldl_process_term_copy_view) (simp add: copy_view_def initial_state_def)






lemma destination_of_prefix:
  "k < length items \<Longrightarrow>
   destination_of env prefix outdir (items @ rest) k = destination_of env prefix outdir items k"
  by (simp add: destination_of_def nth_append)

lemma copy_result_prefix:
  "k < length items \<Longrightarrow>
   copy_result env prefix outdir (items @ rest) k = copy_result env prefix outdir items k"
  by (simp add: copy_result_def destination_of_prefix nth_append)


lemma copied_entries_prefix:
  "k < length items \<Longrightarrow>
   copied_entries env prefix outdir (items @ rest) k = copied_entries env prefix outdir items k"
  by (simp add: copied_entries_def copy_result_prefix destination_of_prefix split: sum.split)


lemma concat_map_upt_snoc:
  assumes "\<And>k. k < n \<Longrightarrow> f k = g k"
  shows "concat (map f [0..<Suc n]) = concat (map g [0..<n]) @ f n"
proof -
  have eq: "map f [0..<n] = map g [0..<n]"
    by (rule map_cong) (simp_all add: assms)
  have "concat (map f [0..<Suc n]) = concat (map f [0..<n]) @ f n"
    by simp
  then show ?thesis
    by (simp only: eq)
qed

text \<open>The row at the end of a list of rows: its destination and its copy.\<close>

lemma destination_of_last:
  "destination_of env prefix outdir (items @ [item]) (length items)
     = resolve_destination
         (map fst (output_files (foldl (process_item env prefix) (initial_state 0 outdir) items)))
         (prepare_filename prefix (snd (fst item)) (filename (snd item)))"
  by (simp add: destination_of_def)

lemma copy_result_last:
  "copy_result env prefix outdir (items @ [item]) (length items)
     = copy2 env (filepath (snd item))
         (resolve_destination
            (map fst (output_files (foldl (process_item env prefix) (initial_state 0 outdir) items)))
            (prepare_filename prefix (snd (fst item)) (filename (snd item))))"
  by (simp add: copy_result_def destination_of_last)

text \<open>The output directory after the rows of a run, whatever the digests are.\<close>

lemma foldl_process_item_outputs:
  "output_files (foldl (process_item env prefix) (initial_state 0 outdir) items)
     = outdir @ concat (map (copied_entries env prefix outdir items) [0..<length items])
   \<and> map output_filename (found_files_data (foldl (process_item env prefix) (initial_state 0 outdir) items))
     = map (\<lambda>copy. basename_of_name (fst copy))
         (concat (map (copied_entries env prefix outdir items) [0..<length items]))
   \<and> (distinct (map fst outdir)
        \<longrightarrow> distinct (map fst (output_files (foldl (process_item env prefix)
                                                (initial_state 0 outdir) items))))"
proof (induction items rule: rev_induct)
  case Nil
  show ?case by (simp add: initial_state_def)
next
  case (snoc item items)
  let ?st = "foldl (process_item env prefix) (initial_state 0 outdir) items"
  let ?st' = "process_item env prefix ?st item"
  let ?n = "length items"
  let ?dest = "resolve_destination (map fst (output_files ?st))
                 (prepare_filename prefix (snd (fst item)) (filename (snd item)))"
  have fold: "foldl (process_item env prefix) (initial_state 0 outdir) (items @ [item]) = ?st'"
    by simp
  from snoc have ih_a: "output_files ?st
       = outdir @ concat (map (copied_entries env prefix outdir items) [0..<?n])"
    and ih_b: "map output_filename (found_files_data ?st)
       = map (\<lambda>copy. basename_of_name (fst copy))
           (concat (map (copied_entries env prefix outdir items) [0..<?n]))"
    and ih_c: "distinct (map fst outdir) \<longrightarrow> distinct (map fst (output_files ?st))"
    by blast+
  have copies: "concat (map (copied_entries env prefix outdir (items @ [item])) [0..<Suc ?n])
       = concat (map (copied_entries env prefix outdir items) [0..<?n])
         @ copied_entries env prefix outdir (items @ [item]) ?n"
    by (rule concat_map_upt_snoc) (simp add: copied_entries_prefix)
  have last: "copied_entries env prefix outdir (items @ [item]) ?n
       = (case copy2 env (filepath (snd item)) ?dest of Inl e \<Rightarrow> [] | Inr b \<Rightarrow> [(?dest, b)])"
    by (simp add: copied_entries_def copy_result_last destination_of_last split: sum.split)
  have fresh: "?dest \<notin> set (map fst (output_files ?st))"
    by (rule resolve_destination_fresh)
  show ?case
  proof (cases "copy2 env (filepath (snd item)) ?dest")
    case (Inl e)
    from process_file_copy_failed [OF Inl, of "fst (fst item)"]
    have same: "output_files ?st' = output_files ?st" "found_files_data ?st' = found_files_data ?st"
      by (simp_all add: process_item_def)
    have a: "output_files ?st'
       = outdir @ concat (map (copied_entries env prefix outdir (items @ [item])) [0..<Suc ?n])"
      unfolding copies last Inl same using ih_a by simp
    have b: "map output_filename (found_files_data ?st')
       = map (\<lambda>copy. basename_of_name (fst copy))
           (concat (map (copied_entries env prefix outdir (items @ [item])) [0..<Suc ?n]))"
      unfolding copies last Inl same using ih_b by simp
    have c: "distinct (map fst outdir) \<longrightarrow> distinct (map fst (output_files ?st'))"
      unfolding same using ih_c .
    from a b c show ?thesis unfolding fold by simp
  next
    case (Inr b)
    from process_file_copied [OF Inr, of "fst (fst item)"]
    have out: "output_files ?st' = output_files ?st @ [(?dest, b)]"
      and found: "map output_filename (found_files_data ?st')
                    = map output_filename (found_files_data ?st) @ [basename_of_name ?dest]"
      by (simp_all add: process_item_def)
    have a: "output_files ?st'
       = outdir @ concat (map (copied_entries env prefix outdir (items @ [item])) [0..<Suc ?n])"
      unfolding copies last Inr out using ih_a by simp
    have b: "map output_filename (found_files_data ?st')
       = map (\<lambda>copy. basename_of_name (fst copy))
           (concat (map (copied_entries env prefix outdir (items @ [item])) [0..<Suc ?n]))"
      unfolding copies last Inr found using ih_b by simp
    have c: "distinct (map fst outdir) \<longrightarrow> distinct (map fst (output_files ?st'))"
      using ih_c fresh by (simp add: out)
    from a b c show ?thesis unfolding fold by simp
  qed
qed


text \<open>Writing the reports over the copies.\<close>

lemma map_of_write_file:
  "map_of (write_file name content dir) other
     = (if other = name then Some content else map_of dir other)"
proof (cases "name \<in> set (map fst dir)")
  case True
  have other_name: "map_of (map (\<lambda>entry. if fst entry = name then (name, content) else entry) xs) other
          = map_of xs other" if "other \<noteq> name" for xs
    using that by (induction xs) auto
  have same_name: "map_of (map (\<lambda>entry. if fst entry = name then (name, content) else entry) xs) name
          = Some content" if "name \<in> set (map fst xs)" for xs
    using that by (induction xs) auto
  from True other_name same_name show ?thesis
    by (simp add: write_file_def)
next
  case False
  then have "map_of dir name = None"
    by (simp add: map_of_eq_None_iff)
  with False show ?thesis
    by (auto simp add: write_file_def map_add_def split: option.split)
qed

lemma map_of_written_reports:
  "map_of (foldl (\<lambda>dir report. write_file (fst report) (snd report) dir) dir reports) other
     = (case map_of (rev reports) other of Some content \<Rightarrow> Some content | None \<Rightarrow> map_of dir other)"
proof (induction reports arbitrary: dir)
  case Nil
  show ?case by simp
next
  case (Cons report reports)
  show ?case
    by (cases report)
       (simp add: Cons map_of_write_file map_add_def split: option.split)
qed

lemma report_files_names:
  "set (map fst (report_files env flt n st)) \<subseteq> set report_names"
  by (auto simp add: report_files_def report_names_def)

lemma output_bundle_keeps_copies:
  assumes "other \<notin> set report_names"
  shows "map_of (output_bundle (finish_report env flt n st)) other
           = map_option CopiedBytes (map_of (output_files st) other)"
proof -
  from assms report_files_names [of env flt n st]
  have "other \<notin> set (map fst (rev (report_files env flt n st)))"
    by auto
  then have "map_of (rev (report_files env flt n st)) other = None"
    by (simp add: map_of_eq_None_iff)
  moreover have "map_of (map (\<lambda>copy. (fst copy, CopiedBytes (snd copy))) xs) other
                   = map_option CopiedBytes (map_of xs other)" for xs :: "(string \<times> string) list"
    by (induction xs) auto
  ultimately show ?thesis
    by (simp add: finish_report_def map_of_written_reports)
qed

lemma output_bundle_report:
  assumes "(name, content) \<in> set (report_files env flt n st)"
  shows "map_of (output_bundle (finish_report env flt n st)) name = Some content"
proof -
  have "distinct (map fst (report_files env flt n st))"
    by (auto simp add: report_files_def)
  then have "distinct (map fst (rev (report_files env flt n st)))"
    by (simp add: rev_map [symmetric])
  moreover from assms have "(name, content) \<in> set (rev (report_files env flt n st))"
    by simp
  ultimately have "map_of (rev (report_files env flt n st)) name = Some content"
    by (rule map_of_is_SomeI)
  then show ?thesis
    by (simp add: finish_report_def map_of_written_reports)
qed



lemma run_terms_outputs:
  "output_files (run_terms env d flt outdir ts)
     = outdir @ concat (map (copied_entries env (bulk_rename_prefix flt) outdir (work_items d flt ts))
                          [0..<length (work_items d flt ts)])
   \<and> map output_filename (found_files_data (run_terms env d flt outdir ts))
     = map (\<lambda>copy. basename_of_name (fst copy))
         (concat (map (copied_entries env (bulk_rename_prefix flt) outdir (work_items d flt ts))
                    [0..<length (work_items d flt ts)]))
   \<and> (distinct (map fst outdir)
        \<longrightarrow> distinct (map fst (output_files (run_terms env d flt outdir ts))))"
proof -
  let ?st = "foldl (process_item env (bulk_rename_prefix flt)) (initial_state 0 outdir)
               (work_items d flt ts)"
  have "copy_view (run_terms env d flt outdir ts) = copy_view ?st"
    by (rule run_terms_copy_view)
  then have eq: "found_files_data (run_terms env d flt outdir ts) = found_files_data ?st"
      "output_files (run_terms env d flt outdir ts) = output_files ?st"
    by (simp_all add: copy_view_def)
  from foldl_process_item_outputs [of env "bulk_rename_prefix flt" outdir "work_items d flt ts"]
  show ?thesis unfolding eq .
qed


lemma retrieve_documents_bundle:
  assumes "ts \<noteq> []" and "other \<notin> set report_names"
  shows "map_option (\<lambda>rep. map_of (output_bundle rep) other)
           (retrieve_documents env d flt outdir ts)
         = Some (map_option CopiedBytes
                   (map_of (output_files (run_terms env d flt outdir ts)) other))"
  using assms by (simp add: retrieve_documents_def output_bundle_keeps_copies)

text \<open>
  Claim C9 (name collisions in the output directory), amended. The destination is
  never a name already in the directory; a free name is taken as it is; for a taken
  name the destination is base, underscore, \<open>k\<close>, extension for the least \<open>k\<close> from 1
  on whose name is free. A copy that does not raise puts its file under the
  destination resolved against the directory as it is at that moment, whichever term
  put the earlier files there; a copy that raises leaves the directory as it is.
  When the loop over the terms ends, the directory holds what it held at the start
  and then one file for every copy that did not raise, each found row having its own
  file; the names are pairwise distinct when those at the start are. When the reports
  have been written, every name that is not the name of a report holds what the loop
  left under it.
\<close>

theorem name_collisions_resolved_by_suffix:
  "resolve_destination existing name \<notin> set existing
   \<and> (name \<notin> set existing \<longrightarrow> resolve_destination existing name = name)
   \<and> (name \<in> set existing \<longrightarrow>
        (\<exists>k\<ge>1. resolve_destination existing name
                  = fst (splitext name) @ ''_'' @ str_nat k @ snd (splitext name)
              \<and> (\<forall>j. 1 \<le> j \<and> j < k
                    \<longrightarrow> fst (splitext name) @ ''_'' @ str_nat j @ snd (splitext name)
                          \<in> set existing)))
   \<and> (copy2 env (filepath row)
          (resolve_destination (map fst (output_files st))
             (prepare_filename prefix trm (filename row))) = Inr b
        \<longrightarrow> output_files (process_file env prefix stype trm st row)
              = output_files st
                @ [(resolve_destination (map fst (output_files st))
                      (prepare_filename prefix trm (filename row)), b)])
   \<and> (copy2 env (filepath row)
          (resolve_destination (map fst (output_files st))
             (prepare_filename prefix trm (filename row))) = Inl e
        \<longrightarrow> output_files (process_file env prefix stype trm st row) = output_files st)
   \<and> output_files (run_terms env d flt outdir ts)
       = outdir @ concat (map (copied_entries env (bulk_rename_prefix flt) outdir (work_items d flt ts))
                            [0..<length (work_items d flt ts)])
   \<and> map output_filename (found_files_data (run_terms env d flt outdir ts))
       = map (\<lambda>copy. basename_of_name (fst copy))
           (concat (map (copied_entries env (bulk_rename_prefix flt) outdir (work_items d flt ts))
                      [0..<length (work_items d flt ts)]))
   \<and> (distinct (map fst outdir)
        \<longrightarrow> distinct (map fst (output_files (run_terms env d flt outdir ts))))
   \<and> (ts \<noteq> [] \<and> other \<notin> set report_names
        \<longrightarrow> map_option (\<lambda>rep. map_of (output_bundle rep) other)
              (retrieve_documents env d flt outdir ts)
            = Some (map_option CopiedBytes
                      (map_of (output_files (run_terms env d flt outdir ts)) other)))"
proof -
  note run = run_terms_outputs [of env d flt outdir ts]
  have ok: "copy2 env (filepath row)
          (resolve_destination (map fst (output_files st))
             (prepare_filename prefix trm (filename row))) = Inr b
        \<longrightarrow> output_files (process_file env prefix stype trm st row)
              = output_files st
                @ [(resolve_destination (map fst (output_files st))
                      (prepare_filename prefix trm (filename row)), b)]"
    using process_file_copied [of env row st prefix trm b stype] by blast
  have failed: "copy2 env (filepath row)
          (resolve_destination (map fst (output_files st))
             (prepare_filename prefix trm (filename row))) = Inl e
        \<longrightarrow> output_files (process_file env prefix stype trm st row) = output_files st"
    using process_file_copy_failed [of env row st prefix trm e stype] by blast
  have kept: "ts \<noteq> [] \<and> other \<notin> set report_names
        \<longrightarrow> map_option (\<lambda>rep. map_of (output_bundle rep) other)
              (retrieve_documents env d flt outdir ts)
            = Some (map_option CopiedBytes
                      (map_of (output_files (run_terms env d flt outdir ts)) other))"
    using retrieve_documents_bundle [of ts other env d flt outdir] by blast
  from resolve_destination_fresh [of existing name]
       resolve_destination_free [of name existing]
       resolve_destination_suffix [of name existing]
       ok failed run kept
  show ?thesis by blast
qed

text \<open>
  The claim as stated fails where copies raise: the two statements found for the term
  \<^verbatim>\<open>AC/12\<close> both get the name \<^verbatim>\<open>AC/12_statement.pdf\<close>, which lies in a directory
  that is not there; neither copy is made, and after the run the output directory
  holds the two reports and no other file. And a copy does not outlive a report of
  its name: of the two files named \<^verbatim>\<open>MANIFEST.txt\<close> the loop leaves two copies, the
  first of which is then replaced by the manifest of the run.
\<close>

theorem same_destination_name_no_file:
  "map filename (filtered_results example_slash_catalog example_prefix_filter (Account, ''AC/12''))
     = [''statement.pdf'', ''statement.pdf'']
   \<and> prepare_filename (bulk_rename_prefix example_prefix_filter) ''AC/12'' ''statement.pdf''
     = ''AC/12_statement.pdf''
   \<and> output_files (run_terms example_retrieval_env example_slash_catalog example_prefix_filter []
                      [(Account, ''AC/12'')]) = []
   \<and> map_option (map fst \<circ> output_bundle)
        (retrieve_documents example_retrieval_env example_slash_catalog example_prefix_filter []
           [(Account, ''AC/12'')])
     = Some [''MANIFEST.txt'', ''duplicates_detected.csv'']
   \<and> map_option copied_files
        (retrieve_documents example_retrieval_env example_manifest_catalog example_text_filter []
           [(Name, ''run of'')])
     = Some [(''MANIFEST.txt'', ''run of 2023''), (''MANIFEST_1.txt'', ''run of 2024'')]
   \<and> map_option copies_left
        (retrieve_documents example_retrieval_env example_manifest_catalog example_text_filter []
           [(Name, ''run of'')])
     = Some [(''MANIFEST_1.txt'', ''run of 2024'')]"
  by code_simp

theorem name_collisions_resolved_by_suffix_witness:
  "resolve_destination [''report.pdf'', ''report_1.pdf'', ''report_3.pdf''] ''report.pdf''
     = ''report_2.pdf''
   \<and> ''report_2.pdf'' \<notin> set [''report.pdf'', ''report_1.pdf'', ''report_3.pdf'']
   \<and> map fst (output_files (run_terms example_retrieval_env example_catalog example_filter
                               [(''report.pdf'', ''old'')] example_terms))
     = [''report.pdf'', ''123456_contract.pdf'', ''123456_contract_1.pdf'', ''report_1.pdf'',
        ''report_2.pdf'']
   \<and> distinct (map fst (output_files (run_terms example_retrieval_env example_catalog
                               example_filter [(''report.pdf'', ''old'')] example_terms)))
   \<and> map_option (\<lambda>rep. map_of (output_bundle rep) ''report_2.pdf'')
        (retrieve_documents example_retrieval_env example_catalog example_filter
           [(''report.pdf'', ''old'')] example_terms)
     = Some (Some (CopiedBytes ''PDF-R''))"
proof -
  let ?final = "run_terms example_retrieval_env example_catalog example_filter
                  [(''report.pdf'', ''old'')] example_terms"
  have r: "resolve_destination [''report.pdf'', ''report_1.pdf'', ''report_3.pdf''] ''report.pdf''
             = ''report_2.pdf''"
    by code_simp
  have out: "output_files ?final
     = [(''report.pdf'', ''old''), (''123456_contract.pdf'', ''PDF-A''),
        (''123456_contract_1.pdf'', ''PDF-A''), (''report_1.pdf'', ''PDF-R''),
        (''report_2.pdf'', ''PDF-R'')]"
    by code_simp
  have d0: "distinct (map fst [(''report.pdf'', ''old'')])"
    by simp
  have ts: "example_terms \<noteq> []"
    by (simp add: example_terms_def)
  have other: "''report_2.pdf'' \<notin> set report_names"
    by (simp add: report_names_def)
  note inst = name_collisions_resolved_by_suffix
    [where existing = "[''report.pdf'', ''report_1.pdf'', ''report_3.pdf'']" and name = "''report.pdf''"
       and env = example_retrieval_env and d = example_catalog and flt = example_filter
       and outdir = "[(''report.pdf'', ''old'')]" and ts = example_terms
       and other = "''report_2.pdf''"]
  from inst r have fresh: "''report_2.pdf'' \<notin> set [''report.pdf'', ''report_1.pdf'', ''report_3.pdf'']"
    by metis
  from inst d0 have dist: "distinct (map fst (output_files ?final))"
    by blast
  from inst ts other have "map_option (\<lambda>rep. map_of (output_bundle rep) ''report_2.pdf'')
        (retrieve_documents example_retrieval_env example_catalog example_filter
           [(''report.pdf'', ''old'')] example_terms)
     = Some (map_option CopiedBytes (map_of (output_files ?final) ''report_2.pdf''))"
    by blast
  then have kept: "map_option (\<lambda>rep. map_of (output_bundle rep) ''report_2.pdf'')
        (retrieve_documents example_retrieval_env example_catalog example_filter
           [(''report.pdf'', ''old'')] example_terms)
     = Some (Some (CopiedBytes ''PDF-R''))"
    by (simp add: out)
  from out have names: "map fst (output_files ?final)
     = [''report.pdf'', ''123456_contract.pdf'', ''123456_contract_1.pdf'', ''report_1.pdf'',
        ''report_2.pdf'']"
    by simp
  from r fresh names dist kept show ?thesis by blast
qed




end
